theory Spec2Isabelle
  imports
    Complex_Main
    "HOL-Library.Signed_Division"
    "HOL-Library.Char_ord"
    "HOL-Library.List_Lexorder"
begin

section \<open>The timelapse viewer of \<^verbatim>\<open>src/timelapse_viewer.cpp\<close>\<close>

text \<open>
  The class \<^verbatim>\<open>TimelapseViewer\<close> is embedded function by function. Mutation of the
  object is explicit state passing on the record \<open>viewer\<close>; the three locals of
  \<^verbatim>\<open>run()\<close> that live across loop iterations are the record \<open>clock\<close>. What C++ leaves
  undefined (integer division by zero, a float that does not fit the \<^verbatim>\<open>int\<close> it is cast
  to, signed overflow) is a value of type \<open>fault\<close>, so that it is a branch of the model
  and not an unspecified HOL value.
\<close>

datatype fault = DivisionByZero | FloatNotFinite | IntCastOutOfRange | IntOverflow

subsection \<open>Machine arithmetic\<close>

text \<open>
  \<^verbatim>\<open>size_t\<close> is 64 bits wide: sums and differences wrap modulo \<open>2 ^ 64\<close>; \<^verbatim>\<open>%\<close> with a
  zero divisor is undefined.
\<close>

definition size_add :: "nat \<Rightarrow> nat \<Rightarrow> nat" where
  "size_add a b = (a + b) mod 2 ^ 64"

definition size_sub :: "nat \<Rightarrow> nat \<Rightarrow> nat" where
  "size_sub a b = (a mod 2 ^ 64 + 2 ^ 64 - b mod 2 ^ 64) mod 2 ^ 64"

definition size_mod :: "nat \<Rightarrow> nat \<Rightarrow> fault + nat" where
  "size_mod a b = (if b = 0 then Inl DivisionByZero else Inr (a mod b))"

text \<open>
  \<^verbatim>\<open>int\<close> is 32 bits wide and signed. \<^verbatim>\<open>/\<close> truncates toward zero (\<open>sdiv\<close>); a result
  outside the range is undefined behaviour and is reported as \<open>IntOverflow\<close>.
\<close>

definition in_int_range :: "int \<Rightarrow> bool" where
  "in_int_range n = (- (2 ^ 31) \<le> n \<and> n < 2 ^ 31)"

definition int_sub :: "int \<Rightarrow> int \<Rightarrow> fault + int" where
  "int_sub a b = (if in_int_range (a - b) then Inr (a - b) else Inl IntOverflow)"

definition int_incr :: "int \<Rightarrow> fault + int" where
  "int_incr a = (if in_int_range (a + 1) then Inr (a + 1) else Inl IntOverflow)"

subsection \<open>Single-precision arithmetic\<close>

text \<open>
  \<^verbatim>\<open>renderCurrentFrame\<close> computes the scale in \<^verbatim>\<open>float\<close>. A finite \<^verbatim>\<open>float\<close> is the
  rational it denotes; every operation returns the exact result rounded to the nearest
  number with a 24-bit significand, ties to the even significand (IEEE 754 binary32, the
  default rounding mode). \<open>float_exponent q\<close> is the \<open>e\<close> with \<open>2 ^ e \<le> q < 2 ^ (e + 1)\<close>
  for a positive \<open>q\<close>. Operands here are 32-bit integers, their quotients and products
  with such quotients, which lie between \<open>2 ^ - 31\<close> and \<open>2 ^ 62\<close> in magnitude when they
  are not zero: far inside the normal range of binary32, so neither overflow to infinity
  nor gradual underflow arises.
\<close>

fun bits :: "nat \<Rightarrow> nat" where
  "bits n = (if n = 0 then 0 else Suc (bits (n div 2)))"

declare bits.simps [simp del]

definition pow2 :: "int \<Rightarrow> rat" where
  "pow2 e = (if 0 \<le> e then 2 ^ nat e else 1 / 2 ^ nat (- e))"

definition float_exponent :: "rat \<Rightarrow> int" where
  "float_exponent q =
     (if 1 \<le> q then int (bits (nat \<lfloor>q\<rfloor>)) - 1
      else - int (bits (nat (\<lceil>1 / q\<rceil> - 1))))"

definition round_half_even :: "rat \<Rightarrow> int" where
  "round_half_even x =
     (let f = \<lfloor>x\<rfloor>; r = x - of_int f
      in if r < 1 / 2 then f
         else if 1 / 2 < r then f + 1
         else if even f then f else f + 1)"

definition float_round :: "rat \<Rightarrow> rat" where
  "float_round q =
     (if q = 0 then 0
      else let ulp = pow2 (float_exponent \<bar>q\<bar> - 23)
           in sgn q * of_int (round_half_even (\<bar>q\<bar> / ulp)) * ulp)"

text \<open>\<^verbatim>\<open>static_cast<float>(n)\<close> of an \<^verbatim>\<open>int\<close>, and the implicit conversion of one.\<close>

definition int_to_float :: "int \<Rightarrow> rat" where
  "int_to_float n = float_round (of_int n)"

text \<open>
  \<^verbatim>\<open>static_cast<int>(x)\<close> of a \<^verbatim>\<open>float\<close> discards the fraction; the behaviour is
  undefined when the truncated value is not an \<^verbatim>\<open>int\<close>.
\<close>

definition toward_zero :: "rat \<Rightarrow> int" where
  "toward_zero x = (if 0 \<le> x then \<lfloor>x\<rfloor> else \<lceil>x\<rceil>)"

definition float_to_int :: "rat \<Rightarrow> fault + int" where
  "float_to_int x =
     (let t = toward_zero x
      in if in_int_range t then Inr t else Inl IntCastOutOfRange)"

subsection \<open>The draw rectangle\<close>

text \<open>\<^verbatim>\<open>SDL_Rect {x, y, w, h}\<close>.\<close>

record rect =
  rect_x :: int
  rect_y :: int
  rect_w :: int
  rect_h :: int

text \<open>
  Lines 228 to 240 of \<^verbatim>\<open>renderCurrentFrame\<close>, as a function of the window size and of
  the size \<^verbatim>\<open>SDL_QueryTexture\<close> reports. A texture dimension of zero makes a quotient
  infinite or not a number, which the rational model does not follow: it is reported as
  \<open>FloatNotFinite\<close> (SDL creates no texture of width or height zero).
\<close>

definition renderRect :: "int \<Rightarrow> int \<Rightarrow> int \<Rightarrow> int \<Rightarrow> fault + rect" where
  "renderRect windowWidth windowHeight textureWidth textureHeight =
     (if textureWidth = 0 \<or> textureHeight = 0 then Inl FloatNotFinite
      else
        let scaleX = float_round (int_to_float windowWidth / int_to_float textureWidth);
            scaleY = float_round (int_to_float windowHeight / int_to_float textureHeight);
            scale = min scaleX scaleY
        in case float_to_int (float_round (int_to_float textureWidth * scale)) of
             Inl e \<Rightarrow> Inl e
           | Inr renderWidth \<Rightarrow>
        (case float_to_int (float_round (int_to_float textureHeight * scale)) of
             Inl e \<Rightarrow> Inl e
           | Inr renderHeight \<Rightarrow>
        (case int_sub windowWidth renderWidth of
             Inl e \<Rightarrow> Inl e
           | Inr dx \<Rightarrow>
        (case int_sub windowHeight renderHeight of
             Inl e \<Rightarrow> Inl e
           | Inr dy \<Rightarrow>
               Inr \<lparr>rect_x = dx sdiv 2, rect_y = dy sdiv 2,
                    rect_w = renderWidth, rect_h = renderHeight\<rparr>))))"

subsection \<open>The viewer\<close>

text \<open>
  An \<^verbatim>\<open>SDL_Texture*\<close> is \<open>None\<close> when null, and otherwise carries the size that
  \<^verbatim>\<open>SDL_QueryTexture\<close> returns. \<open>window\<close> and \<open>renderer\<close> say whether the handle is
  non-null. What the viewer does to its collaborators is kept in three more fields:
  \<open>presented\<close> lists the frames copied and presented (index and rectangle, newest
  first), \<open>windowTitle\<close> is the title last set, \<open>cerr\<close> the diagnostics written.
\<close>

record texture =
  tex_w :: int
  tex_h :: int

datatype diagnostic =
    SDLInitFailed
  | IMGInitFailed
  | WindowNotCreated
  | RendererNotCreated
  | InvalidDirectory string
  | NoImagesFound string
  | UnableToLoadImage string
  | UnableToCreateTexture string
  | CannotRun

record viewer =
  window :: bool
  renderer :: bool
  imagePaths :: "string list"
  textures :: "texture option list"
  currentIndex :: nat
  running :: bool
  playing :: bool
  targetFPS :: int
  fullscreen :: bool
  windowWidth :: int
  windowHeight :: int
  presented :: "(nat \<times> rect) list"
  windowTitle :: string
  cerr :: "diagnostic list"

text \<open>The member initialisers of lines 14 to 24; the window is untitled and unopened.\<close>

definition TimelapseViewer :: viewer where
  "TimelapseViewer =
     \<lparr>window = False, renderer = False, imagePaths = [], textures = [],
      currentIndex = 0, running = True, playing = False, targetFPS = 240,
      fullscreen = False, windowWidth = 1280, windowHeight = 720,
      presented = [], windowTitle = [], cerr = []\<rparr>"

definition renderCurrentFrame :: "viewer \<Rightarrow> fault + viewer" where
  "renderCurrentFrame v =
     (if length (textures v) \<le> currentIndex v then Inr v
      else case textures v ! currentIndex v of
             None \<Rightarrow> Inr v
           | Some t \<Rightarrow>
               (case renderRect (windowWidth v) (windowHeight v) (tex_w t) (tex_h t) of
                  Inl e \<Rightarrow> Inl e
                | Inr r \<Rightarrow> Inr (v\<lparr>presented := (currentIndex v, r) # presented v\<rparr>)))"

subsection \<open>Input events\<close>

datatype keysym = SDLK_ESCAPE | SDLK_SPACE | SDLK_RIGHT | SDLK_LEFT | SDLK_other

datatype event = SDL_QUIT | SDL_KEYDOWN keysym | SDL_other

text \<open>The body of the \<^verbatim>\<open>SDL_PollEvent\<close> loop, lines 155 to 178, for one event.\<close>

fun handleEvent :: "event \<Rightarrow> viewer \<Rightarrow> fault + viewer" where
  "handleEvent SDL_QUIT v = Inr (v\<lparr>running := False\<rparr>)"
| "handleEvent (SDL_KEYDOWN SDLK_ESCAPE) v = Inr (v\<lparr>running := False\<rparr>)"
| "handleEvent (SDL_KEYDOWN SDLK_SPACE) v = Inr (v\<lparr>playing := \<not> playing v\<rparr>)"
| "handleEvent (SDL_KEYDOWN SDLK_RIGHT) v =
     (if \<not> playing v then
        (case size_mod (size_add (currentIndex v) 1) (length (imagePaths v)) of
           Inl e \<Rightarrow> Inl e
         | Inr i \<Rightarrow> renderCurrentFrame (v\<lparr>currentIndex := i\<rparr>))
      else Inr v)"
| "handleEvent (SDL_KEYDOWN SDLK_LEFT) v =
     (if \<not> playing v then
        (case size_mod (size_sub (size_add (currentIndex v) (length (imagePaths v))) 1)
                (length (imagePaths v)) of
           Inl e \<Rightarrow> Inl e
         | Inr i \<Rightarrow> renderCurrentFrame (v\<lparr>currentIndex := i\<rparr>))
      else Inr v)"
| "handleEvent (SDL_KEYDOWN SDLK_other) v = Inr v"
| "handleEvent SDL_other v = Inr v"

text \<open>The inner loop drains the queue: every pending event is handled, in order.\<close>

fun pollEvents :: "event list \<Rightarrow> viewer \<Rightarrow> fault + viewer" where
  "pollEvents [] v = Inr v"
| "pollEvents (e # es) v =
     (case handleEvent e v of Inl f \<Rightarrow> Inl f | Inr v' \<Rightarrow> pollEvents es v')"

subsection \<open>The playback loop\<close>

text \<open>
  A \<^verbatim>\<open>time_point\<close> of \<^verbatim>\<open>high_resolution_clock\<close> is its count of nanoseconds (the
  period of the clock in libstdc++ and libc++), held in 64 bits; \<^verbatim>\<open>duration_cast\<close>
  truncates toward zero. The locals of \<^verbatim>\<open>run()\<close>, lines 148 to 150:
\<close>

record clock =
  lastFrameTime :: int
  frameCount :: int
  fpsTimer :: int

definition milliseconds :: "int \<Rightarrow> int" where
  "milliseconds d = d sdiv 1000000"

definition seconds :: "int \<Rightarrow> int" where
  "seconds d = d sdiv 1000000000"

text \<open>\<^verbatim>\<open>std::to_string\<close> of an integer, and the title of line 201.\<close>

fun digits :: "nat \<Rightarrow> string" where
  "digits n =
     (if n < 10 then [''0123456789'' ! n]
      else digits (n div 10) @ [''0123456789'' ! (n mod 10)])"

declare digits.simps [simp del]

definition to_string :: "int \<Rightarrow> string" where
  "to_string n = (if n < 0 then CHR ''-'' # digits (nat (- n)) else digits (nat n))"

definition fpsTitle :: "int \<Rightarrow> string" where
  "fpsTitle n = ''High-Speed Timelapse Viewer - '' @ to_string n @ '' FPS''"

text \<open>Line 188: \<^verbatim>\<open>int msPerFrame = 1000 / targetFPS\<close>.\<close>

definition msPerFrame :: "int \<Rightarrow> fault + int" where
  "msPerFrame fps = (if fps = 0 then Inl DivisionByZero else Inr (1000 sdiv fps))"

text \<open>Lines 191 to 194, the body of \<^verbatim>\<open>if (elapsed >= msPerFrame)\<close>.\<close>

definition advanceFrame :: "int \<Rightarrow> viewer \<times> clock \<Rightarrow> fault + viewer \<times> clock" where
  "advanceFrame currentTime vc =
     (case vc of (v, c) \<Rightarrow>
        (case size_mod (size_add (currentIndex v) 1) (length (imagePaths v)) of
           Inl e \<Rightarrow> Inl e
         | Inr i \<Rightarrow>
        (case renderCurrentFrame (v\<lparr>currentIndex := i\<rparr>) of
           Inl e \<Rightarrow> Inl e
         | Inr v' \<Rightarrow>
        (case int_incr (frameCount c) of
           Inl e \<Rightarrow> Inl e
         | Inr n \<Rightarrow> Inr (v', c\<lparr>lastFrameTime := currentTime, frameCount := n\<rparr>)))))"

text \<open>Lines 198 to 206, the measurement of the frame rate.\<close>

definition measureFPS :: "int \<Rightarrow> viewer \<times> clock \<Rightarrow> viewer \<times> clock" where
  "measureFPS currentTime vc =
     (case vc of (v, c) \<Rightarrow>
        let fpsDuration = seconds (currentTime - fpsTimer c)
        in if 1 \<le> fpsDuration then
             (v\<lparr>windowTitle := fpsTitle (frameCount c sdiv fpsDuration)\<rparr>,
              c\<lparr>frameCount := 0, fpsTimer := currentTime\<rparr>)
           else (v, c))"

text \<open>
  Lines 182 to 210, what one iteration does after the events: \<open>currentTime\<close> is the
  reading of the clock of line 183. When paused the iteration only sleeps.
\<close>

definition update :: "int \<Rightarrow> viewer \<times> clock \<Rightarrow> fault + viewer \<times> clock" where
  "update currentTime vc =
     (case vc of (v, c) \<Rightarrow>
        if playing v then
          let elapsed = milliseconds (currentTime - lastFrameTime c)
          in case msPerFrame (targetFPS v) of
               Inl e \<Rightarrow> Inl e
             | Inr ms \<Rightarrow>
                 (case (if ms \<le> elapsed then advanceFrame currentTime (v, c) else Inr (v, c)) of
                    Inl e \<Rightarrow> Inl e
                  | Inr vc' \<Rightarrow> Inr (measureFPS currentTime vc'))
        else Inr (v, c))"

text \<open>
  The loop \<^verbatim>\<open>while (running)\<close>: each iteration is given the events pending at its start
  and the reading of the clock. A finite list of iterations is a finite prefix of a run.
\<close>

fun run_loop :: "(event list \<times> int) list \<Rightarrow> viewer \<times> clock \<Rightarrow> fault + viewer \<times> clock" where
  "run_loop [] vc = Inr vc"
| "run_loop ((evs, currentTime) # rest) (v, c) =
     (if \<not> running v then Inr (v, c)
      else case pollEvents evs v of
             Inl e \<Rightarrow> Inl e
           | Inr v' \<Rightarrow>
               (case update currentTime (v', c) of
                  Inl e \<Rightarrow> Inl e
                | Inr vc' \<Rightarrow> run_loop rest vc'))"

text \<open>
  \<^verbatim>\<open>run()\<close>: \<open>startTime\<close> and \<open>fpsStart\<close> are the two readings of the clock of
  lines 148 and 150.
\<close>

definition run ::
  "int \<Rightarrow> int \<Rightarrow> (event list \<times> int) list \<Rightarrow> viewer \<Rightarrow> fault + viewer \<times> clock" where
  "run startTime fpsStart iterations v =
     (let c = \<lparr>lastFrameTime = startTime, frameCount = 0, fpsTimer = fpsStart\<rparr>
      in if imagePaths v = [] \<or> \<not> window v \<or> \<not> renderer v then
           Inr (v\<lparr>cerr := cerr v @ [CannotRun]\<rparr>, c)
         else run_loop iterations (v, c))"

subsection \<open>Loading the images of a directory\<close>

text \<open>
  A directory entry is a regular file, a directory with its own entries, or something
  else. \<^verbatim>\<open>IMG_Load\<close> and \<^verbatim>\<open>SDL_CreateTextureFromSurface\<close> are the image
  collaborator: parameters of the model, \<open>None\<close> for a null result.
\<close>

datatype fsnode = RegularFile string | Directory string "fsnode list" | OtherNode string

text \<open>
  The calls of \<^verbatim>\<open>std::filesystem\<close> in \<^verbatim>\<open>loadImagesFromDirectory\<close> are the overloads
  that throw \<^verbatim>\<open>filesystem_error\<close>, and nothing in the program catches it.
  \<open>status_of\<close> is what \<^verbatim>\<open>fs::exists\<close> and \<^verbatim>\<open>fs::is_directory\<close> of line 87 find for a
  path: nothing there, a node, or an error of the operating system (a name that is too
  long, a directory on the way that may not be searched), on which they throw.
  \<open>iteration_error d = Some k\<close> says that the iteration of lines 93 and 94 over the
  directory \<open>d\<close> throws after \<open>k\<close> of its entries have been handled: at once when the
  directory cannot be opened, later when the next entry cannot be read or
  \<^verbatim>\<open>is_regular_file\<close> cannot determine its status. A call ends by returning its
  \<^verbatim>\<open>bool\<close> or by throwing; the viewer is left as the call has changed it so far.
  Exhaustion of memory is not modelled.
\<close>

datatype status = NotFound | StatusError | Found fsnode

record filesystem =
  status_of :: "string \<Rightarrow> status"
  iteration_error :: "string \<Rightarrow> nat option"

datatype outcome = Returned bool | Thrown

text \<open>
  \<^verbatim>\<open>path::extension()\<close> of a file name: from the rightmost period to the end; empty for
  the names \<^verbatim>\<open>.\<close> and \<^verbatim>\<open>..\<close>, when there is no period and when the only period is the
  first character.
\<close>

definition extension :: "string \<Rightarrow> string" where
  "extension name =
     (if name = ''.'' \<or> name = ''..'' then []
      else let k = length (takeWhile (\<lambda>c. c \<noteq> CHR ''.'') (rev name))
           in if k = length name \<or> Suc k = length name then []
              else drop (length name - Suc k) name)"

text \<open>
  \<^verbatim>\<open>::tolower\<close> in the C locale: an upper-case letter becomes its lower-case
  counterpart, every other character is returned as it is.
\<close>

definition tolower :: "char \<Rightarrow> char" where
  "tolower c =
     (case map_of (zip ''ABCDEFGHIJKLMNOPQRSTUVWXYZ'' ''abcdefghijklmnopqrstuvwxyz'') c of
        None \<Rightarrow> c
      | Some l \<Rightarrow> l)"

definition isImageExtension :: "string \<Rightarrow> bool" where
  "isImageExtension ext =
     (ext = ''.jpg'' \<or> ext = ''.jpeg'' \<or> ext = ''.png'' \<or>
      ext = ''.bmp'' \<or> ext = ''.tif'' \<or> ext = ''.tiff'')"

text \<open>The path of an entry: the directory path, a separator unless it ends in one, the name.\<close>

definition entryPath :: "string \<Rightarrow> string \<Rightarrow> string" where
  "entryPath directoryPath name =
     (if directoryPath \<noteq> [] \<and> last directoryPath = CHR ''/'' then directoryPath @ name
      else directoryPath @ ''/'' @ name)"

text \<open>Lines 93 to 103: the entries of the directory itself, in the order of iteration.\<close>

fun scanEntries :: "string \<Rightarrow> fsnode list \<Rightarrow> string list \<Rightarrow> string list" where
  "scanEntries directoryPath [] paths = paths"
| "scanEntries directoryPath (RegularFile name # entries) paths =
     scanEntries directoryPath entries
       (if isImageExtension (map tolower (extension name))
        then paths @ [entryPath directoryPath name] else paths)"
| "scanEntries directoryPath (Directory name sub # entries) paths =
     scanEntries directoryPath entries paths"
| "scanEntries directoryPath (OtherNode name # entries) paths =
     scanEntries directoryPath entries paths"

text \<open>\<^verbatim>\<open>textures.resize(n, nullptr)\<close>.\<close>

definition resize :: "'a option list \<Rightarrow> nat \<Rightarrow> 'a option list" where
  "resize ts n = take n ts @ replicate (n - length ts) None"

text \<open>
  Lines 117 to 135, from index \<open>i\<close> on: a surface that fails to load leaves the slot as
  it is (\<^verbatim>\<open>continue\<close>); otherwise the slot takes what the texture creation returns,
  null or not.
\<close>

fun loadLoop ::
  "(string \<Rightarrow> 's option) \<Rightarrow> ('s \<Rightarrow> texture option) \<Rightarrow> string list \<Rightarrow> nat \<Rightarrow>
   texture option list \<times> diagnostic list \<Rightarrow> texture option list \<times> diagnostic list" where
  "loadLoop IMG_Load createTexture [] i (ts, msgs) = (ts, msgs)"
| "loadLoop IMG_Load createTexture (p # ps) i (ts, msgs) =
     (case IMG_Load p of
        None \<Rightarrow> loadLoop IMG_Load createTexture ps (Suc i) (ts, msgs @ [UnableToLoadImage p])
      | Some surface \<Rightarrow>
          (case createTexture surface of
             None \<Rightarrow>
               loadLoop IMG_Load createTexture ps (Suc i)
                 (ts[i := None], msgs @ [UnableToCreateTexture p])
           | Some t \<Rightarrow> loadLoop IMG_Load createTexture ps (Suc i) (ts[i := Some t], msgs)))"

text \<open>How the call ends, and the viewer as it leaves it.\<close>

definition loadImagesFromDirectory ::
  "filesystem \<Rightarrow> (string \<Rightarrow> 's option) \<Rightarrow> ('s \<Rightarrow> texture option) \<Rightarrow>
   string \<Rightarrow> viewer \<Rightarrow> outcome \<times> viewer" where
  "loadImagesFromDirectory fs IMG_Load createTexture directoryPath v =
     (case status_of fs directoryPath of
        StatusError \<Rightarrow> (Thrown, v)
      | NotFound \<Rightarrow> (Returned False, v\<lparr>cerr := cerr v @ [InvalidDirectory directoryPath]\<rparr>)
      | Found (RegularFile name) \<Rightarrow>
          (Returned False, v\<lparr>cerr := cerr v @ [InvalidDirectory directoryPath]\<rparr>)
      | Found (OtherNode name) \<Rightarrow>
          (Returned False, v\<lparr>cerr := cerr v @ [InvalidDirectory directoryPath]\<rparr>)
      | Found (Directory name entries) \<Rightarrow>
          (case iteration_error fs directoryPath of
             Some k \<Rightarrow>
               (Thrown,
                v\<lparr>imagePaths := scanEntries directoryPath (take k entries) (imagePaths v)\<rparr>)
           | None \<Rightarrow>
               (let paths = scanEntries directoryPath entries (imagePaths v)
                in if paths = [] then
                     (Returned False,
                      v\<lparr>imagePaths := paths, cerr := cerr v @ [NoImagesFound directoryPath]\<rparr>)
                   else
                     (let sorted = sort paths;
                          loaded = loadLoop IMG_Load createTexture sorted 0
                                     (resize (textures v) (length sorted), cerr v)
                      in (Returned True,
                          v\<lparr>imagePaths := sorted, textures := fst loaded,
                            cerr := snd loaded\<rparr>)))))"

subsection \<open>Initialisation\<close>

text \<open>
  What SDL answers during \<^verbatim>\<open>initialize\<close>: whether each call succeeds, and the size
  that \<^verbatim>\<open>SDL_GetWindowSize\<close> reports for the new window.
\<close>

record sdl =
  SDL_Init_ok :: bool
  IMG_Init_ok :: bool
  SDL_CreateWindow_ok :: bool
  SDL_CreateRenderer_ok :: bool
  SDL_GetWindowSize :: "int \<times> int"

text \<open>
  Lines 33 to 84. The frame rate is stored as it is given: neither \<^verbatim>\<open>main\<close>, which hands
  over the result of \<^verbatim>\<open>std::stoi\<close>, nor \<^verbatim>\<open>initialize\<close> looks at its value. An
  exception thrown while loading passes through \<^verbatim>\<open>initialize\<close>.
\<close>

definition initialize ::
  "sdl \<Rightarrow> filesystem \<Rightarrow> (string \<Rightarrow> 's option) \<Rightarrow>
   ('s \<Rightarrow> texture option) \<Rightarrow> string \<Rightarrow> bool \<Rightarrow> int \<Rightarrow> viewer \<Rightarrow> outcome \<times> viewer" where
  "initialize lib fs IMG_Load createTexture directoryPath fullscreenMode fps v =
     (let v1 = v\<lparr>fullscreen := fullscreenMode, targetFPS := fps\<rparr>
      in if \<not> SDL_Init_ok lib then
           (Returned False, v1\<lparr>cerr := cerr v1 @ [SDLInitFailed]\<rparr>)
         else if \<not> IMG_Init_ok lib then
           (Returned False, v1\<lparr>cerr := cerr v1 @ [IMGInitFailed]\<rparr>)
         else if \<not> SDL_CreateWindow_ok lib then
           (Returned False, v1\<lparr>window := False, cerr := cerr v1 @ [WindowNotCreated]\<rparr>)
         else
           let v2 = v1\<lparr>window := True, windowTitle := ''High-Speed Timelapse Viewer''\<rparr>
           in if \<not> SDL_CreateRenderer_ok lib then
                (Returned False,
                 v2\<lparr>renderer := False, cerr := cerr v2 @ [RendererNotCreated]\<rparr>)
              else
                loadImagesFromDirectory fs IMG_Load createTexture directoryPath
                  (v2\<lparr>renderer := True,
                      windowWidth := fst (SDL_GetWindowSize lib),
                      windowHeight := snd (SDL_GetWindowSize lib)\<rparr>))"

subsection \<open>Well-formed viewers\<close>

text \<open>
  What holds of a viewer when \<^verbatim>\<open>run()\<close> enters its loop after a successful
  \<^verbatim>\<open>initialize\<close>: there is at least one image path, and fewer than \<open>2 ^ 63\<close> (a
  \<^verbatim>\<open>std::vector\<close> of strings cannot hold more), the window is less than \<open>2 ^ 28\<close>
  pixels wide and high, and every texture that is not null has a positive width and height, as
  SDL guarantees.
\<close>

definition frames_ok :: "viewer \<Rightarrow> bool" where
  "frames_ok v = (imagePaths v \<noteq> [] \<and> length (imagePaths v) < 2 ^ 63)"

definition texture_ok :: "texture option \<Rightarrow> bool" where
  "texture_ok t = (case t of None \<Rightarrow> True | Some tx \<Rightarrow> 0 < tex_w tx \<and> 0 < tex_h tx)"

definition display_ok :: "viewer \<Rightarrow> bool" where
  "display_ok v =
     (0 \<le> windowWidth v \<and> windowWidth v < 2 ^ 28 \<and>
      0 \<le> windowHeight v \<and> windowHeight v < 2 ^ 28 \<and>
      list_all texture_ok (textures v))"

subsection \<open>Concrete inputs\<close>

text \<open>
  A viewer with three image paths whose second image failed to load, in a window of
  800 by 800 pixels, and the same viewer while playing.
\<close>

definition demoViewer :: viewer where
  "demoViewer =
     TimelapseViewer\<lparr>window := True, renderer := True,
       imagePaths := [''t/a.png'', ''t/b.png'', ''t/c.png''],
       textures := [Some \<lparr>tex_w = 4000, tex_h = 3000\<rparr>, None,
                    Some \<lparr>tex_w = 4000, tex_h = 3000\<rparr>],
       windowWidth := 800, windowHeight := 800\<rparr>"

definition playingViewer :: viewer where
  "playingViewer = demoViewer\<lparr>playing := True\<rparr>"

text \<open>Clock readings in milliseconds, as iterations without events.\<close>

definition ticks :: "int list \<Rightarrow> (event list \<times> int) list" where
  "ticks ms = map (\<lambda>t. ([], t * 1000000)) ms"

text \<open>What a run leaves: the index, the count of advances and the time of the last one.\<close>

definition advances :: "fault + viewer \<times> clock \<Rightarrow> (nat \<times> int \<times> int) option" where
  "advances r =
     (case r of
        Inl e \<Rightarrow> None
      | Inr (v, c) \<Rightarrow> Some (currentIndex v, frameCount c, lastFrameTime c))"


text \<open>
  A directory with five image files among other entries, an image collaborator that
  cannot decode two of them, and one that cannot decode any. In the file system the
  directory is found as \<^verbatim>\<open>shots\<close> and, with the same entries, as \<^verbatim>\<open>locked\<close>, which
  cannot be opened for iteration; the status of a path of more than 255 characters
  cannot be determined.
\<close>

definition demoEntries :: "fsnode list" where
  "demoEntries =
     [RegularFile ''b.PNG'', Directory ''sub'' [RegularFile ''z.png''],
      RegularFile ''a.jpg'', RegularFile ''notes.txt'', RegularFile ''e.tiff'',
      OtherNode ''pipe.png'', RegularFile ''c.jpeg'', RegularFile ''d.bmp'',
      RegularFile ''.png'', RegularFile ''x.png.bak'']"

definition demoFs :: filesystem where
  "demoFs =
     \<lparr>status_of =
        (\<lambda>p. if 255 < length p then StatusError
             else if p = ''shots'' \<or> p = ''locked'' then Found (Directory p demoEntries)
             else NotFound),
      iteration_error = (\<lambda>p. if p = ''locked'' then Some 0 else None)\<rparr>"

definition failTwo :: "string \<Rightarrow> texture option" where
  "failTwo p =
     (if p = ''shots/b.PNG'' \<or> p = ''shots/d.bmp'' then None
      else Some \<lparr>tex_w = 4000, tex_h = 3000\<rparr>)"

definition failAll :: "string \<Rightarrow> texture option" where
  "failAll p = None"

definition createOk :: "texture \<Rightarrow> texture option" where
  "createOk s = Some s"

text \<open>An SDL that answers every call with success and opens a window of 800 by 800.\<close>

definition demoSdl :: sdl where
  "demoSdl =
     \<lparr>SDL_Init_ok = True, IMG_Init_ok = True, SDL_CreateWindow_ok = True,
      SDL_CreateRenderer_ok = True, SDL_GetWindowSize = (800, 800)\<rparr>"

subsection \<open>The draw rectangle in the words of the specification\<close>

text \<open>
  The rectangle of section 4.4 of the specification, read as it is written, with exact
  quotients and products: the scale is the smaller of viewport width over frame width
  and viewport height over frame height, the size is the frame size times the scale
  rounded toward zero, and the rectangle is centred with integer division.
\<close>

definition specRect :: "int \<Rightarrow> int \<Rightarrow> int \<Rightarrow> int \<Rightarrow> rect" where
  "specRect vw vh fw fh =
     (let s = min (of_int vw / of_int fw) (of_int vh / of_int fh) :: rat;
          renderWidth = toward_zero (of_int fw * s);
          renderHeight = toward_zero (of_int fh * s)
      in \<lparr>rect_x = (vw - renderWidth) sdiv 2, rect_y = (vh - renderHeight) sdiv 2,
          rect_w = renderWidth, rect_h = renderHeight\<rparr>)"

subsection \<open>Bounds on single-precision rounding\<close>

lemma bits_bounds: "0 < n \<Longrightarrow> 2 ^ (bits n - 1) \<le> n \<and> n < 2 ^ bits n"
proof (induction n rule: bits.induct)
  case (1 n)
  show ?case
  proof (cases "n div 2 = 0")
    case True
    with "1.prems" have "n = 1" by (simp add: div_eq_0_iff) 
    then show ?thesis by (simp add: bits.simps)
  next
    case False
    then have pos: "0 < n div 2" by simp
    from "1.IH" "1.prems" pos
    have ih: "2 ^ (bits (n div 2) - 1) \<le> n div 2" "n div 2 < 2 ^ bits (n div 2)" by auto
    have b: "bits n = Suc (bits (n div 2))" using "1.prems" by (subst bits.simps) simp
    have bp: "0 < bits (n div 2)" using pos by (subst bits.simps) simp
    have "2 ^ (bits n - 1) = 2 * 2 ^ (bits (n div 2) - 1)"
      using b bp by (cases "bits (n div 2)") simp_all
    also have "\<dots> \<le> 2 * (n div 2)" using ih(1) by simp
    also have "\<dots> \<le> n" by simp
    finally have lo: "2 ^ (bits n - 1) \<le> n" .
    have "n < 2 * (n div 2) + 2" by presburger
    also have "\<dots> \<le> 2 * 2 ^ bits (n div 2)" using ih(2) by simp
    finally have hi: "n < 2 ^ bits n" using b by simp
    from lo hi show ?thesis by simp
  qed
qed

lemma pow2_pos: "0 < pow2 e"
  by (simp add: pow2_def)

lemma pow2_exponent_le:
  assumes "0 < q"
  shows "pow2 (float_exponent q) \<le> q"
proof (cases "1 \<le> q")
  case True
  define n where "n = nat \<lfloor>q\<rfloor>"
  have n1: "0 < n" using True by (simp add: n_def)
  have "float_exponent q = int (bits n - 1)"
    using True bits_bounds[OF n1] n1 unfolding float_exponent_def n_def[symmetric]
    by (cases "bits n") (simp_all add: bits.simps)
  then have "pow2 (float_exponent q) = 2 ^ (bits n - 1)" by (simp add: pow2_def)
  also have "\<dots> \<le> of_nat n" using bits_bounds[OF n1]
    by (metis of_nat_le_iff of_nat_numeral of_nat_power)
  also have "\<dots> \<le> q" using True by (simp add: n_def)
  finally show ?thesis .
next
  case False
  define n where "n = nat (\<lceil>1 / q\<rceil> - 1)"
  have e: "float_exponent q = - int (bits n)" using False by (simp add: float_exponent_def n_def)
  have "1 < 1 / q" using assms False by simp
  then have c2: "2 \<le> \<lceil>1 / q\<rceil>" by (simp add: le_ceiling_iff) 
  then have n1: "0 < n" unfolding n_def by linarith
  have "int n + 1 = \<lceil>1 / q\<rceil>" using c2 unfolding n_def by linarith
  moreover have "int n + 1 \<le> 2 ^ bits n" using bits_bounds[OF n1]
    by (metis Suc_leI add.commute of_nat_Suc of_nat_le_iff of_nat_numeral of_nat_power plus_1_eq_Suc)
  ultimately have "\<lceil>1 / q\<rceil> \<le> 2 ^ bits n" by simp
  then have "1 / q \<le> 2 ^ bits n" by (simp add: ceiling_le_iff)
  then have "1 \<le> 2 ^ bits n * q" using assms by (simp add: field_simps)
  then have "1 / 2 ^ bits n \<le> q" by (simp add: field_simps)
  moreover have "pow2 (float_exponent q) = 1 / 2 ^ bits n" unfolding e
    by (simp add: pow2_def)
  ultimately show ?thesis by simp
qed


lemma pow2_powi: "pow2 e = power_int 2 e"
  by (simp add: pow2_def power_int_def power_one_over)

lemma pow2_shift: "pow2 (e - 23) * 2 ^ 23 = pow2 e"
proof -
  have "pow2 e = power_int 2 ((e - 23) + 23)" by (simp add: pow2_powi)
  also have "\<dots> = power_int 2 (e - 23) * power_int (2::rat) 23"
    by (rule power_int_add) simp
  finally show ?thesis by (simp add: pow2_powi)
qed

lemma round_half_even_bounds: "\<lfloor>x\<rfloor> \<le> round_half_even x \<and> round_half_even x \<le> \<lfloor>x\<rfloor> + 1"
  by (simp add: round_half_even_def Let_def)

lemma significand_ge:
  assumes "0 < q"
  shows "2 ^ 23 \<le> q / pow2 (float_exponent q - 23)"
proof -
  have "pow2 (float_exponent q - 23) * 2 ^ 23 \<le> q"
    using pow2_exponent_le[OF assms] by (simp only: pow2_shift)
  then show ?thesis using pow2_pos[of "float_exponent q - 23"]
    by (simp add: pos_le_divide_eq mult.commute)
qed

lemma float_round_pos_bounds:
  assumes "0 < q"
  shows "0 < float_round q \<and> float_round q \<le> 2 * q"
proof -
  define u where "u = pow2 (float_exponent q - 23)"
  define x where "x = q / u"
  have u: "0 < u" by (simp add: u_def pow2_pos)
  have x: "2 ^ 23 \<le> x" using significand_ge[OF assms] by (simp add: x_def u_def)
  have fr: "float_round q = of_int (round_half_even x) * u"
    using assms by (simp add: float_round_def Let_def x_def u_def)
  have "(2::rat) ^ 23 = of_int (2 ^ 23)" by simp
  with x have "(2::int) ^ 23 \<le> \<lfloor>x\<rfloor>" by (simp only: le_floor_iff)
  then have "0 < \<lfloor>x\<rfloor>" by simp
  with round_half_even_bounds[of x] have lo: "0 < round_half_even x" by linarith
  have "(of_int (round_half_even x) :: rat) \<le> of_int (\<lfloor>x\<rfloor> + 1)"
    using round_half_even_bounds[of x] by (subst of_int_le_iff) simp
  also have "\<dots> \<le> x + 1" by simp
  also have "\<dots> \<le> 2 * x" using x by simp
  finally have "of_int (round_half_even x) * u \<le> 2 * x * u"
    using u by (simp only: mult_le_cancel_right_pos)
  also have "\<dots> = 2 * q" using u by (simp add: x_def)
  finally have hi: "float_round q \<le> 2 * q" by (simp only: fr)
  have "0 < of_int (round_half_even x) * u" using lo u by simp
  with hi show ?thesis by (simp only: fr)
qed

lemma float_round_nonneg: "0 \<le> q \<Longrightarrow> 0 \<le> float_round q \<and> float_round q \<le> 2 * q"
  using float_round_pos_bounds[of q] by (cases "q = 0") (auto simp: float_round_def)


lemma floor_in_range:
  fixes x :: rat
  assumes "0 \<le> x" "x < 2 ^ 31"
  shows "0 \<le> \<lfloor>x\<rfloor> \<and> \<lfloor>x\<rfloor> < 2 ^ 31"
proof -
  have "(0::int) \<le> \<lfloor>x\<rfloor>" using assms(1) by simp
  moreover have "x < of_int (2 ^ 31)" using assms(2) by simp
  then have "\<lfloor>x\<rfloor> < 2 ^ 31" by (simp only: floor_less_iff)
  ultimately show ?thesis by simp
qed

lemma float_to_int_floor:
  assumes "0 \<le> x" "x < 2 ^ 31"
  shows "float_to_int x = Inr \<lfloor>x\<rfloor>"
  using floor_in_range[OF assms] assms(1)
  by (simp add: float_to_int_def toward_zero_def in_int_range_def)

lemma scaled_size_bounds:
  assumes tw: "0 < tw" and ww: "0 \<le> ww" "ww < 2 ^ 28" and s: "0 \<le> s"
    and le: "s \<le> float_round (int_to_float ww / int_to_float tw)"
  shows "0 \<le> float_round (int_to_float tw * s) \<and> float_round (int_to_float tw * s) < 2 ^ 31"
proof -
  define A where "A = int_to_float ww"
  define T where "T = int_to_float tw"
  have T: "0 < T" using tw float_round_pos_bounds[of "of_int tw"] by (simp add: T_def int_to_float_def)
  have A: "0 \<le> A" "A \<le> 2 * of_int ww"
    using ww(1) float_round_nonneg[of "of_int ww"] by (simp_all add: A_def int_to_float_def)
  have q: "0 \<le> A / T" using A(1) T by simp
  have "s \<le> 2 * (A / T)" using le float_round_nonneg[OF q] by (simp add: A_def T_def)
  then have "T * s \<le> T * (2 * (A / T))" using T by (simp only: mult_le_cancel_left_pos)
  also have "\<dots> = 2 * A" using T by simp
  finally have ts: "T * s \<le> 2 * A" .
  have ts0: "0 \<le> T * s" using T s by simp
  have "float_round (T * s) \<le> 2 * (T * s)" using float_round_nonneg[OF ts0] by simp
  also have "\<dots> \<le> 8 * of_int ww" using ts A(2) by simp
  also have "\<dots> < 8 * of_int (2 ^ 28)" using ww(2) by (simp only: mult_less_cancel_left_pos of_int_less_iff)
  also have "\<dots> = 2 ^ 31" by simp
  finally have "float_round (T * s) < 2 ^ 31" .
  then show ?thesis using float_round_nonneg[OF ts0] by (simp add: T_def)
qed

lemma int_sub_ok: "0 \<le> a \<Longrightarrow> a < 2 ^ 28 \<Longrightarrow> 0 \<le> b \<Longrightarrow> b < 2 ^ 31 \<Longrightarrow> int_sub a b = Inr (a - b)"
  by (simp add: int_sub_def in_int_range_def)

lemma renderRect_ok:
  assumes "0 < tw" "0 < th" "0 \<le> ww" "ww < 2 ^ 28" "0 \<le> wh" "wh < 2 ^ 28"
  defines "s \<equiv> min (float_round (int_to_float ww / int_to_float tw))
                     (float_round (int_to_float wh / int_to_float th))"
  defines "rw \<equiv> \<lfloor>float_round (int_to_float tw * s)\<rfloor>"
  defines "rh \<equiv> \<lfloor>float_round (int_to_float th * s)\<rfloor>"
  shows "renderRect ww wh tw th =
           Inr \<lparr>rect_x = (ww - rw) sdiv 2, rect_y = (wh - rh) sdiv 2, rect_w = rw, rect_h = rh\<rparr>"
proof -
  have Tw: "0 < int_to_float tw" and Th: "0 < int_to_float th"
    using assms(1,2) float_round_pos_bounds[of "of_int tw"] float_round_pos_bounds[of "of_int th"]
    by (simp_all add: int_to_float_def)
  have Aw: "0 \<le> int_to_float ww" and Ah: "0 \<le> int_to_float wh"
    using assms(3,5) float_round_nonneg[of "of_int ww"] float_round_nonneg[of "of_int wh"]
    by (simp_all add: int_to_float_def)
  have sx: "0 \<le> float_round (int_to_float ww / int_to_float tw)"
    using float_round_nonneg[of "int_to_float ww / int_to_float tw"] Aw Tw by simp
  have sy: "0 \<le> float_round (int_to_float wh / int_to_float th)"
    using float_round_nonneg[of "int_to_float wh / int_to_float th"] Ah Th by simp
  have s0: "0 \<le> s" using sx sy by (simp add: s_def)
  have bw: "0 \<le> float_round (int_to_float tw * s)" "float_round (int_to_float tw * s) < 2 ^ 31"
    using scaled_size_bounds[OF assms(1) assms(3) assms(4) s0] by (simp_all add: s_def)
  have bh: "0 \<le> float_round (int_to_float th * s)" "float_round (int_to_float th * s) < 2 ^ 31"
    using scaled_size_bounds[OF assms(2) assms(5) assms(6) s0] by (simp_all add: s_def)
  have cw: "float_to_int (float_round (int_to_float tw * s)) = Inr rw"
    unfolding rw_def by (rule float_to_int_floor[OF bw])
  have ch: "float_to_int (float_round (int_to_float th * s)) = Inr rh"
    unfolding rh_def by (rule float_to_int_floor[OF bh])
  have rw: "0 \<le> rw" "rw < 2 ^ 31" using floor_in_range[OF bw] by (simp_all add: rw_def)
  have rh: "0 \<le> rh" "rh < 2 ^ 31" using floor_in_range[OF bh] by (simp_all add: rh_def)
  have dw: "int_sub ww rw = Inr (ww - rw)" by (rule int_sub_ok[OF assms(3) assms(4) rw])
  have dh: "int_sub wh rh = Inr (wh - rh)" by (rule int_sub_ok[OF assms(5) assms(6) rh])
  have nz: "\<not> (tw = 0 \<or> th = 0)" using assms(1,2) by simp
  show ?thesis
    unfolding renderRect_def Let_def s_def[symmetric]
    by (simp only: nz if_False cw ch dw dh sum.case)
qed

text \<open>
  The error of one rounding is at most \<open>2 ^ - 24\<close> of the value, and an integer below
  \<open>2 ^ 24\<close> is converted exactly; so the sides of the rectangle stay within one pixel
  of the exact ones.
\<close>

lemma round_half_even_error: "\<bar>of_int (round_half_even x) - x\<bar> \<le> 1 / 2"
proof -
  have "of_int \<lfloor>x\<rfloor> \<le> x" "x < of_int \<lfloor>x\<rfloor> + 1" by linarith+
  then show ?thesis by (auto simp: round_half_even_def Let_def)
qed

lemma float_round_error:
  assumes "0 \<le> q"
  shows "\<bar>float_round q - q\<bar> \<le> q / 2 ^ 24"
proof (cases "q = 0")
  case True
  then show ?thesis by (simp add: float_round_def)
next
  case False
  with assms have pos: "0 < q" by simp
  define u where "u = pow2 (float_exponent q - 23)"
  define x where "x = q / u"
  have u: "0 < u" by (simp add: u_def pow2_pos)
  have fr: "float_round q = of_int (round_half_even x) * u"
    using pos by (simp add: float_round_def Let_def x_def u_def)
  have q: "q = x * u" using u by (simp add: x_def)
  have "float_round q - q = (of_int (round_half_even x) - x) * u"
    by (subst (2) q) (simp add: fr algebra_simps)
  then have "\<bar>float_round q - q\<bar> = \<bar>of_int (round_half_even x) - x\<bar> * u"
    using u by (simp add: abs_mult)
  also have "\<dots> \<le> (1 / 2) * u"
    using round_half_even_error[of x] u by (simp only: mult_le_cancel_right_pos)
  finally have e: "\<bar>float_round q - q\<bar> \<le> u / 2" by simp
  have "u * 2 ^ 23 \<le> q"
    using pow2_exponent_le[OF pos] by (simp only: u_def pow2_shift)
  then have "u / 2 \<le> q / 2 ^ 24" by simp
  with e show ?thesis by linarith
qed

lemma round_half_even_of_int: "round_half_even (of_int k) = k"
  by (simp add: round_half_even_def)

lemma pow_24: "(2::rat) ^ 24 = 16777216" and pow_22: "(2::rat) ^ 22 = 4194304"
  by simp_all

lemma exp2_less: "(2::nat) ^ a < 2 ^ b \<Longrightarrow> a < b"
  by simp

lemma int_to_float_exact:
  assumes "0 \<le> n" "n < 2 ^ 24"
  shows "int_to_float n = of_int n"
proof (cases "n = 0")
  case True
  then show ?thesis by (simp add: int_to_float_def float_round_def)
next
  case False
  with assms have pos: "0 < n" by simp
  define m where "m = nat n"
  have m: "0 < m" "m < 2 ^ 24" "int m = n" using pos assms(2) by (simp_all add: m_def)
  from bits_bounds[OF m(1)] m(2) have "(2::nat) ^ (bits m - 1) < 2 ^ 24" by linarith
  then have b: "bits m - 1 < 24" by (rule exp2_less)
  have b0: "0 < bits m" using m(1) by (subst bits.simps) simp
  define k where "k = 24 - bits m"
  have k: "int (bits m) - 1 - 23 = - int k" using b b0 by (simp add: k_def)
  have "1 \<le> (of_int n :: rat)" using pos by simp
  then have e: "float_exponent (of_int n) = int (bits m) - 1"
    by (simp add: float_exponent_def m_def)
  have p: "pow2 (- int k) = 1 / 2 ^ k" by (simp add: pow2_def)
  have x: "(of_int n :: rat) / (1 / 2 ^ k) = of_int (n * 2 ^ k)" by simp
  have "float_round (of_int n) = of_int (round_half_even (of_int (n * 2 ^ k))) * (1 / 2 ^ k)"
    using pos by (simp only: float_round_def Let_def e k p x abs_of_nonneg) simp
  also have "\<dots> = of_int n" by (simp only: round_half_even_of_int) simp
  finally show ?thesis by (simp add: int_to_float_def)
qed

lemma min_close:
  assumes "0 \<le> X" "0 \<le> Y"
  shows "\<bar>min (float_round X) (float_round Y) - min X Y\<bar> \<le> min X Y / 2 ^ 24"
proof -
  have a: "\<bar>float_round X - X\<bar> \<le> X / 2 ^ 24" by (rule float_round_error[OF assms(1)])
  have b: "\<bar>float_round Y - Y\<bar> \<le> Y / 2 ^ 24" by (rule float_round_error[OF assms(2)])
  show ?thesis
  proof (cases "float_round X \<le> float_round Y")
    case True
    show ?thesis
    proof (cases "X \<le> Y")
      case x: True
      with True a show ?thesis by (simp add: min_def)
    next
      case x: False
      have "min (float_round X) (float_round Y) = float_round X" "min X Y = Y"
        using True x by (simp_all add: min_def)
      moreover have "\<bar>float_round X - Y\<bar> \<le> Y / 2 ^ 24" using a b True x unfolding pow_24 by linarith
      ultimately show ?thesis by simp
    qed
  next
    case False
    show ?thesis
    proof (cases "X \<le> Y")
      case x: True
      have "min (float_round X) (float_round Y) = float_round Y" "min X Y = X"
        using False x by (simp_all add: min_def)
      moreover have "\<bar>float_round Y - X\<bar> \<le> X / 2 ^ 24" using a b False x unfolding pow_24 by linarith
      ultimately show ?thesis by simp
    next
      case x: False
      with False b show ?thesis by (simp add: min_def)
    qed
  qed
qed

lemma side_close:
  assumes F: "0 < F" and S: "0 \<le> S" and s: "\<bar>s - S\<bar> \<le> S / 2 ^ 24" and b: "F * S \<le> 2 ^ 22"
  shows "\<bar>float_round (F * s) - F * S\<bar> < 1"
proof -
  define t where "t = F * s"
  define E where "E = F * S"
  have s0: "0 \<le> s" using s S unfolding pow_24 by linarith
  have E0: "0 \<le> E" using F S by (simp add: E_def)
  have t0: "0 \<le> t" using F s0 by (simp add: t_def)
  have "t - E = F * (s - S)" by (simp add: t_def E_def algebra_simps)
  then have "\<bar>t - E\<bar> = F * \<bar>s - S\<bar>" using F by (simp add: abs_mult)
  also have "\<dots> \<le> F * (S / 2 ^ 24)" using s F by (simp only: mult_le_cancel_left_pos)
  also have "\<dots> = E / 2 ^ 24" by (simp add: E_def)
  finally have te: "\<bar>t - E\<bar> \<le> E / 2 ^ 24" .
  have pt: "\<bar>float_round t - t\<bar> \<le> t / 2 ^ 24" by (rule float_round_error[OF t0])
  have "E \<le> 2 ^ 22" using b by (simp add: E_def)
  with te pt E0 have "\<bar>float_round t - E\<bar> < 1" unfolding pow_24 pow_22 by linarith
  then show ?thesis by (simp add: t_def E_def)
qed

lemma floor_close:
  fixes a b :: rat
  assumes "\<bar>a - b\<bar> < 1"
  shows "\<bar>\<lfloor>a\<rfloor> - \<lfloor>b\<rfloor>\<bar> \<le> 1"
proof -
  have "a < b + 1" "b < a + 1" using assms by (simp_all add: abs_less_iff)
  then have "\<lfloor>a\<rfloor> \<le> \<lfloor>b + 1\<rfloor>" "\<lfloor>b\<rfloor> \<le> \<lfloor>a + 1\<rfloor>" by (simp_all only: floor_mono less_imp_le)
  moreover have "\<lfloor>b + 1\<rfloor> = \<lfloor>b\<rfloor> + 1" "\<lfloor>a + 1\<rfloor> = \<lfloor>a\<rfloor> + 1" by simp_all
  ultimately show ?thesis by linarith
qed

lemma rect_close:
  assumes "0 < fw" "fw < 2 ^ 24" "0 < fh" "fh < 2 ^ 24"
    and "0 \<le> vw" "vw \<le> 2 ^ 22" "0 \<le> vh" "vh \<le> 2 ^ 22"
  shows "\<exists>r. renderRect vw vh fw fh = Inr r \<and>
           \<bar>rect_w r - rect_w (specRect vw vh fw fh)\<bar> \<le> 1 \<and>
           \<bar>rect_h r - rect_h (specRect vw vh fw fh)\<bar> \<le> 1"
proof -
  define X :: rat where "X = of_int vw / of_int fw"
  define Y :: rat where "Y = of_int vh / of_int fh"
  define s where "s = min (float_round X) (float_round Y)"
  have c: "int_to_float fw = of_int fw" "int_to_float fh = of_int fh"
    "int_to_float vw = of_int vw" "int_to_float vh = of_int vh"
    using assms by (simp_all add: int_to_float_exact)
  have X0: "0 \<le> X" and Y0: "0 \<le> Y" using assms by (simp_all add: X_def Y_def)
  have S0: "0 \<le> min X Y" using X0 Y0 by simp
  have sc: "\<bar>s - min X Y\<bar> \<le> min X Y / 2 ^ 24" unfolding s_def by (rule min_close[OF X0 Y0])
  have "of_int fw * X = (of_int vw :: rat)" using assms(1) by (simp add: X_def)
  moreover have "(of_int vw :: rat) \<le> 2 ^ 22" using assms(6) by (metis of_int_le_iff of_int_numeral of_int_power)
  moreover have "of_int fw * min X Y \<le> of_int fw * X" using assms(1) by simp
  ultimately have bw: "of_int fw * min X Y \<le> (2 ^ 22 :: rat)" by linarith
  have "of_int fh * Y = (of_int vh :: rat)" using assms(3) by (simp add: Y_def)
  moreover have "(of_int vh :: rat) \<le> 2 ^ 22" using assms(8) by (metis of_int_le_iff of_int_numeral of_int_power)
  moreover have "of_int fh * min X Y \<le> of_int fh * Y" using assms(3) by simp
  ultimately have bh: "of_int fh * min X Y \<le> (2 ^ 22 :: rat)" by linarith
  have w: "\<bar>float_round (of_int fw * s) - of_int fw * min X Y\<bar> < 1"
    using assms(1) by (intro side_close[OF _ S0 sc bw]) simp
  have h: "\<bar>float_round (of_int fh * s) - of_int fh * min X Y\<bar> < 1"
    using assms(3) by (intro side_close[OF _ S0 sc bh]) simp
  have vb: "vw < 2 ^ 28" "vh < 2 ^ 28" using assms(6,8) by simp_all
  have r: "renderRect vw vh fw fh =
       Inr \<lparr>rect_x = (vw - \<lfloor>float_round (of_int fw * s)\<rfloor>) sdiv 2,
            rect_y = (vh - \<lfloor>float_round (of_int fh * s)\<rfloor>) sdiv 2,
            rect_w = \<lfloor>float_round (of_int fw * s)\<rfloor>,
            rect_h = \<lfloor>float_round (of_int fh * s)\<rfloor>\<rparr>"
    using renderRect_ok[OF assms(1) assms(3) assms(5) vb(1) assms(7) vb(2)]
    by (simp add: c s_def X_def Y_def)
  have "0 \<le> of_int fw * min X Y" "0 \<le> of_int fh * min X Y"
    using assms(1,3) S0 by simp_all
  then have sw: "rect_w (specRect vw vh fw fh) = \<lfloor>of_int fw * min X Y\<rfloor>"
    and sh: "rect_h (specRect vw vh fw fh) = \<lfloor>of_int fh * min X Y\<rfloor>"
    by (simp_all add: specRect_def toward_zero_def Let_def X_def Y_def)
  show ?thesis unfolding r sw sh using floor_close[OF w] floor_close[OF h] by simp
qed

subsection \<open>Evaluating the arithmetic on numerals\<close>

lemma floor_rat_numeral: "\<lfloor>numeral a / numeral b :: rat\<rfloor> = numeral a div numeral b"
  by (metis floor_divide_of_int_eq of_int_numeral)

lemma ceiling_rat_numeral: "\<lceil>numeral a / numeral b :: rat\<rceil> = - (- numeral a div numeral b)"
  using ceiling_divide_eq_div[of "numeral a" "numeral b", where ?'a = rat] by simp

lemmas float_eval = float_round_def float_exponent_def bits.simps pow2_def round_half_even_def
  Let_def floor_rat_numeral ceiling_rat_numeral int_to_float_def

lemmas rect_eval = renderRect_def float_eval float_to_int_def toward_zero_def in_int_range_def
  int_sub_def signed_divide_int_def

lemma demoRect:
  "renderRect 800 800 4000 3000 = Inr \<lparr>rect_x = 0, rect_y = 100, rect_w = 800, rect_h = 600\<rparr>"
  by (simp add: rect_eval)

lemmas loop_eval = update_def msPerFrame_def milliseconds_def seconds_def advanceFrame_def
  measureFPS_def size_mod_def size_add_def renderCurrentFrame_def demoRect int_incr_def
  in_int_range_def Let_def

lemmas demo_eval = playingViewer_def demoViewer_def TimelapseViewer_def

subsection \<open>Rendering and stepping\<close>

lemma renderCurrentFrame_ok:
  assumes "display_ok v"
  shows "\<exists>p. renderCurrentFrame v = Inr (v\<lparr>presented := p\<rparr>)"
proof (cases "length (textures v) \<le> currentIndex v")
  case True
  then have "renderCurrentFrame v = Inr (v\<lparr>presented := presented v\<rparr>)"
    by (simp add: renderCurrentFrame_def)
  then show ?thesis by blast
next
  case False
  show ?thesis
  proof (cases "textures v ! currentIndex v")
    case None
    with False have "renderCurrentFrame v = Inr (v\<lparr>presented := presented v\<rparr>)"
      by (simp add: renderCurrentFrame_def)
    then show ?thesis by blast
  next
    case (Some t)
    from False have "textures v ! currentIndex v \<in> set (textures v)" by simp
    with assms Some have "0 < tex_w t" "0 < tex_h t"
      by (auto simp: display_ok_def list_all_iff texture_ok_def)
    with assms obtain r where
      "renderRect (windowWidth v) (windowHeight v) (tex_w t) (tex_h t) = Inr r"
      using renderRect_ok[of "tex_w t" "tex_h t" "windowWidth v" "windowHeight v"]
      by (auto simp: display_ok_def)
    with False Some
    have "renderCurrentFrame v = Inr (v\<lparr>presented := (currentIndex v, r) # presented v\<rparr>)"
      by (simp add: renderCurrentFrame_def)
    then show ?thesis by blast
  qed
qed

lemma display_ok_index [simp]: "display_ok (v\<lparr>currentIndex := i\<rparr>) = display_ok v"
  by (simp add: display_ok_def)

lemma display_ok_presented [simp]: "display_ok (v\<lparr>presented := p\<rparr>) = display_ok v"
  by (simp add: display_ok_def)

lemma frames_ok_index [simp]: "frames_ok (v\<lparr>currentIndex := i\<rparr>) = frames_ok v"
  by (simp add: frames_ok_def)

lemma frames_ok_presented [simp]: "frames_ok (v\<lparr>presented := p\<rparr>) = frames_ok v"
  by (simp add: frames_ok_def)

lemma next_index:
  assumes "i < n" "n < 2 ^ 63"
  shows "size_mod (size_add i 1) n = Inr ((i + 1) mod n)"
proof -
  have "i + 1 < (2::nat) ^ 64" using assms by simp
  then have "size_add i 1 = i + 1" by (simp add: size_add_def)
  moreover have "n \<noteq> 0" using assms(1) by simp
  ultimately show ?thesis by (simp add: size_mod_def)
qed

lemma prev_index:
  assumes "i < n" "n < 2 ^ 63"
  shows "size_mod (size_sub (size_add i n) 1) n = Inr ((i + (n - 1)) mod n)"
proof -
  have lt: "i + n < (2::nat) ^ 64" using assms by simp
  then have a: "size_add i n = i + n" by (simp add: size_add_def)
  have pos: "0 < i + n" using assms(1) by simp
  have "size_sub (i + n) 1 = (i + n + 2 ^ 64 - 1) mod 2 ^ 64"
    using lt by (simp add: size_sub_def)
  also have "i + n + 2 ^ 64 - 1 = (i + n - 1) + 2 ^ 64" using pos by simp
  also have "((i + n - 1) + 2 ^ 64) mod 2 ^ 64 = i + n - 1" using lt by simp
  finally have s: "size_sub (i + n) 1 = i + n - 1" .
  have "n \<noteq> 0" using assms(1) by simp
  moreover have "i + n - 1 = i + (n - 1)" using assms(1) by simp
  ultimately show ?thesis unfolding a s size_mod_def by simp
qed

lemma step_forward:
  assumes "frames_ok v" "display_ok v" "\<not> playing v" "currentIndex v < length (imagePaths v)"
  shows "\<exists>p. handleEvent (SDL_KEYDOWN SDLK_RIGHT) v =
           Inr (v\<lparr>currentIndex := (currentIndex v + 1) mod length (imagePaths v),
                  presented := p\<rparr>)"
proof -
  let ?i = "(currentIndex v + 1) mod length (imagePaths v)"
  have n: "size_mod (size_add (currentIndex v) 1) (length (imagePaths v)) = Inr ?i"
    using assms(1,4) by (intro next_index) (simp_all add: frames_ok_def)
  obtain p where "renderCurrentFrame (v\<lparr>currentIndex := ?i\<rparr>) = Inr (v\<lparr>currentIndex := ?i, presented := p\<rparr>)"
    using renderCurrentFrame_ok[of "v\<lparr>currentIndex := ?i\<rparr>"] assms(2) by auto
  with n assms(3) show ?thesis by auto
qed

lemma step_backward:
  assumes "frames_ok v" "display_ok v" "\<not> playing v" "currentIndex v < length (imagePaths v)"
  shows "\<exists>p. handleEvent (SDL_KEYDOWN SDLK_LEFT) v =
           Inr (v\<lparr>currentIndex := (currentIndex v + (length (imagePaths v) - 1))
                                     mod length (imagePaths v),
                  presented := p\<rparr>)"
proof -
  let ?i = "(currentIndex v + (length (imagePaths v) - 1)) mod length (imagePaths v)"
  have n: "size_mod (size_sub (size_add (currentIndex v) (length (imagePaths v))) 1)
             (length (imagePaths v)) = Inr ?i"
    using assms(1,4) by (intro prev_index) (simp_all add: frames_ok_def)
  obtain p where "renderCurrentFrame (v\<lparr>currentIndex := ?i\<rparr>) = Inr (v\<lparr>currentIndex := ?i, presented := p\<rparr>)"
    using renderCurrentFrame_ok[of "v\<lparr>currentIndex := ?i\<rparr>"] assms(2) by auto
  with n assms(3) show ?thesis by auto
qed

lemma steps_forward:
  assumes "frames_ok v" "display_ok v" "\<not> playing v" "currentIndex v < length (imagePaths v)"
  shows "\<exists>p. pollEvents (replicate k (SDL_KEYDOWN SDLK_RIGHT)) v =
           Inr (v\<lparr>currentIndex := (currentIndex v + k) mod length (imagePaths v),
                  presented := p\<rparr>)"
  using assms
proof (induction k arbitrary: v)
  case 0
  then have "pollEvents (replicate 0 (SDL_KEYDOWN SDLK_RIGHT)) v =
      Inr (v\<lparr>currentIndex := (currentIndex v + 0) mod length (imagePaths v),
             presented := presented v\<rparr>)"
    by simp
  then show ?case by blast
next
  case (Suc k)
  let ?n = "length (imagePaths v)"
  from step_forward[OF Suc.prems] obtain p1 where
    s1: "handleEvent (SDL_KEYDOWN SDLK_RIGHT) v =
           Inr (v\<lparr>currentIndex := (currentIndex v + 1) mod ?n, presented := p1\<rparr>)"
    by blast
  let ?v1 = "v\<lparr>currentIndex := (currentIndex v + 1) mod ?n, presented := p1\<rparr>"
  have n0: "0 < ?n" using Suc.prems(1) by (simp add: frames_ok_def)
  have "\<exists>p. pollEvents (replicate k (SDL_KEYDOWN SDLK_RIGHT)) ?v1 =
           Inr (?v1\<lparr>currentIndex := (currentIndex ?v1 + k) mod length (imagePaths ?v1),
                    presented := p\<rparr>)"
    using Suc.prems n0 by (intro Suc.IH) auto
  then obtain p2 where
    "pollEvents (replicate k (SDL_KEYDOWN SDLK_RIGHT)) ?v1 =
       Inr (v\<lparr>currentIndex := ((currentIndex v + 1) mod ?n + k) mod ?n, presented := p2\<rparr>)"
    by auto
  moreover have "((currentIndex v + 1) mod ?n + k) mod ?n = (currentIndex v + Suc k) mod ?n"
    by (simp add: mod_add_left_eq)
  ultimately have "pollEvents (replicate (Suc k) (SDL_KEYDOWN SDLK_RIGHT)) v =
       Inr (v\<lparr>currentIndex := (currentIndex v + Suc k) mod ?n, presented := p2\<rparr>)"
    using s1 by simp
  then show ?case by blast
qed

lemma steps_backward:
  assumes "frames_ok v" "display_ok v" "\<not> playing v" "currentIndex v < length (imagePaths v)"
  shows "\<exists>p. pollEvents (replicate k (SDL_KEYDOWN SDLK_LEFT)) v =
           Inr (v\<lparr>currentIndex := (currentIndex v + k * (length (imagePaths v) - 1))
                                     mod length (imagePaths v),
                  presented := p\<rparr>)"
  using assms
proof (induction k arbitrary: v)
  case 0
  then have "pollEvents (replicate 0 (SDL_KEYDOWN SDLK_LEFT)) v =
      Inr (v\<lparr>currentIndex := (currentIndex v + 0 * (length (imagePaths v) - 1))
                               mod length (imagePaths v),
             presented := presented v\<rparr>)"
    by simp
  then show ?case by blast
next
  case (Suc k)
  let ?n = "length (imagePaths v)"
  from step_backward[OF Suc.prems] obtain p1 where
    s1: "handleEvent (SDL_KEYDOWN SDLK_LEFT) v =
           Inr (v\<lparr>currentIndex := (currentIndex v + (?n - 1)) mod ?n, presented := p1\<rparr>)"
    by blast
  let ?v1 = "v\<lparr>currentIndex := (currentIndex v + (?n - 1)) mod ?n, presented := p1\<rparr>"
  have n0: "0 < ?n" using Suc.prems(1) by (simp add: frames_ok_def)
  have "\<exists>p. pollEvents (replicate k (SDL_KEYDOWN SDLK_LEFT)) ?v1 =
           Inr (?v1\<lparr>currentIndex := (currentIndex ?v1 + k * (length (imagePaths ?v1) - 1))
                                       mod length (imagePaths ?v1),
                    presented := p\<rparr>)"
    using Suc.prems n0 by (intro Suc.IH) auto
  then obtain p2 where
    "pollEvents (replicate k (SDL_KEYDOWN SDLK_LEFT)) ?v1 =
       Inr (v\<lparr>currentIndex := ((currentIndex v + (?n - 1)) mod ?n + k * (?n - 1)) mod ?n,
              presented := p2\<rparr>)"
    by auto
  moreover have "((currentIndex v + (?n - 1)) mod ?n + k * (?n - 1)) mod ?n =
                 (currentIndex v + Suc k * (?n - 1)) mod ?n"
    by (simp add: mod_add_left_eq add.assoc)
  ultimately have "pollEvents (replicate (Suc k) (SDL_KEYDOWN SDLK_LEFT)) v =
       Inr (v\<lparr>currentIndex := (currentIndex v + Suc k * (?n - 1)) mod ?n, presented := p2\<rparr>)"
    using s1 by simp
  then show ?case by blast
qed

subsection \<open>One iteration of the loop\<close>

lemma advanceFrame_ok:
  assumes "frames_ok v" "display_ok v" "currentIndex v < length (imagePaths v)"
    and "0 \<le> frameCount c" "frameCount c < 2 ^ 31 - 1"
  shows "\<exists>p. advanceFrame t (v, c) =
           Inr (v\<lparr>currentIndex := (currentIndex v + 1) mod length (imagePaths v),
                  presented := p\<rparr>,
                c\<lparr>lastFrameTime := t, frameCount := frameCount c + 1\<rparr>)"
proof -
  let ?i = "(currentIndex v + 1) mod length (imagePaths v)"
  have n: "size_mod (size_add (currentIndex v) 1) (length (imagePaths v)) = Inr ?i"
    using assms(1,3) by (intro next_index) (simp_all add: frames_ok_def)
  obtain p where r: "renderCurrentFrame (v\<lparr>currentIndex := ?i\<rparr>) = Inr (v\<lparr>currentIndex := ?i, presented := p\<rparr>)"
    using renderCurrentFrame_ok[of "v\<lparr>currentIndex := ?i\<rparr>"] assms(2) by auto
  have i: "int_incr (frameCount c) = Inr (frameCount c + 1)"
    using assms(4,5) by (simp add: int_incr_def in_int_range_def)
  have "advanceFrame t (v, c) =
          Inr (v\<lparr>currentIndex := ?i, presented := p\<rparr>,
               c\<lparr>lastFrameTime := t, frameCount := frameCount c + 1\<rparr>)"
    unfolding advanceFrame_def by (simp only: prod.case n r i sum.case)
  then show ?thesis by blast
qed

lemma update_paused: "\<not> playing v \<Longrightarrow> update t (v, c) = Inr (v, c)"
  by (simp add: update_def)

lemma update_not_due:
  assumes "playing v" "targetFPS v \<noteq> 0"
    and "milliseconds (t - lastFrameTime c) < 1000 sdiv targetFPS v"
  shows "update t (v, c) = Inr (measureFPS t (v, c))"
  using assms by (simp add: update_def msPerFrame_def Let_def)

lemma update_due:
  assumes "playing v" "targetFPS v \<noteq> 0"
    and "1000 sdiv targetFPS v \<le> milliseconds (t - lastFrameTime c)"
    and "frames_ok v" "display_ok v" "currentIndex v < length (imagePaths v)"
    and "0 \<le> frameCount c" "frameCount c < 2 ^ 31 - 1"
  shows "\<exists>p. update t (v, c) =
           Inr (measureFPS t
                  (v\<lparr>currentIndex := (currentIndex v + 1) mod length (imagePaths v),
                     presented := p\<rparr>,
                   c\<lparr>lastFrameTime := t, frameCount := frameCount c + 1\<rparr>))"
proof -
  from advanceFrame_ok[OF assms(4-8), of t] obtain p where
    a: "advanceFrame t (v, c) =
          Inr (v\<lparr>currentIndex := (currentIndex v + 1) mod length (imagePaths v),
                 presented := p\<rparr>,
               c\<lparr>lastFrameTime := t, frameCount := frameCount c + 1\<rparr>)"
    by blast
  have "update t (v, c) =
          Inr (measureFPS t
                 (v\<lparr>currentIndex := (currentIndex v + 1) mod length (imagePaths v),
                    presented := p\<rparr>,
                  c\<lparr>lastFrameTime := t, frameCount := frameCount c + 1\<rparr>))"
    using assms(1-3) by (simp add: update_def msPerFrame_def Let_def a)
  then show ?thesis by blast
qed

lemma measureFPS_viewer:
  "currentIndex (fst (measureFPS t (v, c))) = currentIndex v \<and>
   imagePaths (fst (measureFPS t (v, c))) = imagePaths v \<and>
   playing (fst (measureFPS t (v, c))) = playing v \<and>
   lastFrameTime (snd (measureFPS t (v, c))) = lastFrameTime c"
  by (simp add: measureFPS_def Let_def)

lemma sdiv_pos: "0 < (b::int) \<Longrightarrow> 1000 sdiv b = 1000 div b"
  by (simp add: signed_divide_int_def)

lemma milliseconds_nonneg: "0 \<le> d \<Longrightarrow> 0 \<le> milliseconds d"
  by (simp add: milliseconds_def signed_divide_int_def sgn_if pos_imp_zdiv_nonneg_iff)

lemma update_total:
  assumes "frames_ok v" "display_ok v" "currentIndex v < length (imagePaths v)"
    and "targetFPS v \<noteq> 0" "0 \<le> frameCount c" "frameCount c < 2 ^ 31 - 1"
  shows "\<exists>v' c'. update t (v, c) = Inr (v', c') \<and> imagePaths v' = imagePaths v \<and>
           currentIndex v' < length (imagePaths v')"
proof (cases "playing v")
  case False
  then show ?thesis using assms(3) by (simp add: update_paused)
next
  case True
  show ?thesis
  proof (cases "1000 sdiv targetFPS v \<le> milliseconds (t - lastFrameTime c)")
    case due: True
    let ?i = "(currentIndex v + 1) mod length (imagePaths v)"
    from update_due[OF True assms(4) due assms(1,2,3,5,6)] obtain p where
      u: "update t (v, c) =
            Inr (measureFPS t (v\<lparr>currentIndex := ?i, presented := p\<rparr>,
                               c\<lparr>lastFrameTime := t, frameCount := frameCount c + 1\<rparr>))"
      by blast
    let ?r = "measureFPS t (v\<lparr>currentIndex := ?i, presented := p\<rparr>,
                            c\<lparr>lastFrameTime := t, frameCount := frameCount c + 1\<rparr>)"
    have "update t (v, c) = Inr (fst ?r, snd ?r)" using u by simp
    moreover have "imagePaths (fst ?r) = imagePaths v" "currentIndex (fst ?r) = ?i"
      using measureFPS_viewer[of t "v\<lparr>currentIndex := ?i, presented := p\<rparr>"] by simp_all
    moreover have "0 < length (imagePaths v)" using assms(1) by (simp add: frames_ok_def)
    then have "?i < length (imagePaths v)" by (rule mod_less_divisor)
    ultimately show ?thesis by metis
  next
    case False
    then have u: "update t (v, c) = Inr (measureFPS t (v, c))"
      using update_not_due[OF True assms(4)] by simp
    let ?r = "measureFPS t (v, c)"
    have "update t (v, c) = Inr (fst ?r, snd ?r)" using u by simp
    moreover have "imagePaths (fst ?r) = imagePaths v" "currentIndex (fst ?r) = currentIndex v"
      using measureFPS_viewer[of t v c] by simp_all
    ultimately show ?thesis using assms(3) by metis
  qed
qed

lemma moved_in_range:
  assumes "h = Inr (v\<lparr>currentIndex := i, presented := p\<rparr>)" "i < length (imagePaths v)"
    and "frames_ok v" "display_ok v"
  shows "\<exists>v'. h = Inr v' \<and> imagePaths v' = imagePaths v \<and>
           currentIndex v' < length (imagePaths v') \<and> frames_ok v' \<and> display_ok v'"
  using assms by simp

lemma frames_ok_flags [simp]:
  "frames_ok (v\<lparr>running := r\<rparr>) = frames_ok v" "frames_ok (v\<lparr>playing := b\<rparr>) = frames_ok v"
  by (simp_all add: frames_ok_def)

lemma display_ok_flags [simp]:
  "display_ok (v\<lparr>running := r\<rparr>) = display_ok v" "display_ok (v\<lparr>playing := b\<rparr>) = display_ok v"
  by (simp_all add: display_ok_def)

lemma handleEvent_total:
  assumes "frames_ok v" "display_ok v" "currentIndex v < length (imagePaths v)"
  shows "\<exists>v'. handleEvent e v = Inr v' \<and> imagePaths v' = imagePaths v \<and>
           currentIndex v' < length (imagePaths v') \<and> frames_ok v' \<and> display_ok v'"
proof (cases "playing v")
  case True
  with assms show ?thesis
    by (cases e; (cases "case e of SDL_KEYDOWN k \<Rightarrow> k | _ \<Rightarrow> SDLK_other")?) auto
next
  case False
  have n0: "0 < length (imagePaths v)" using assms(1) by (simp add: frames_ok_def)
  show ?thesis
  proof (cases e)
    case SDL_QUIT
    with assms show ?thesis by simp
  next
    case SDL_other
    with assms show ?thesis by simp
  next
    case (SDL_KEYDOWN k)
    show ?thesis
    proof (cases k)
      case SDLK_RIGHT
      from step_forward[OF assms(1,2) False assms(3)] obtain p where
        eq: "handleEvent (SDL_KEYDOWN SDLK_RIGHT) v =
           Inr (v\<lparr>currentIndex := (currentIndex v + 1) mod length (imagePaths v),
                  presented := p\<rparr>)"
        by blast
      have "(currentIndex v + 1) mod length (imagePaths v) < length (imagePaths v)"
        using n0 by (rule mod_less_divisor)
      with eq show ?thesis unfolding SDL_KEYDOWN SDLK_RIGHT
        by (rule moved_in_range[OF _ _ assms(1,2)])
    next
      case SDLK_LEFT
      from step_backward[OF assms(1,2) False assms(3)] obtain p where
        eq: "handleEvent (SDL_KEYDOWN SDLK_LEFT) v =
           Inr (v\<lparr>currentIndex := (currentIndex v + (length (imagePaths v) - 1))
                                     mod length (imagePaths v),
                  presented := p\<rparr>)"
        by blast
      have "(currentIndex v + (length (imagePaths v) - 1)) mod length (imagePaths v)
              < length (imagePaths v)"
        using n0 by (rule mod_less_divisor)
      with eq show ?thesis unfolding SDL_KEYDOWN SDLK_LEFT
        by (rule moved_in_range[OF _ _ assms(1,2)])
    qed (use assms SDL_KEYDOWN in auto)
  qed
qed

lemma pollEvents_total:
  assumes "frames_ok v" "display_ok v" "currentIndex v < length (imagePaths v)"
  shows "\<exists>v'. pollEvents evs v = Inr v' \<and> imagePaths v' = imagePaths v \<and>
           currentIndex v' < length (imagePaths v') \<and> frames_ok v' \<and> display_ok v'"
  using assms
proof (induction evs arbitrary: v)
  case Nil
  then show ?case by simp
next
  case (Cons e evs)
  from handleEvent_total[OF Cons.prems, of e] obtain v1 where
    h: "handleEvent e v = Inr v1" "imagePaths v1 = imagePaths v"
      "currentIndex v1 < length (imagePaths v1)" "frames_ok v1" "display_ok v1"
    by blast
  from Cons.IH[OF h(4,5,3)] obtain v2 where
    "pollEvents evs v1 = Inr v2" "imagePaths v2 = imagePaths v1"
      "currentIndex v2 < length (imagePaths v2)" "frames_ok v2" "display_ok v2"
    by blast
  with h show ?case by simp
qed


subsection \<open>Scanning and loading\<close>

lemma scanEntries_eq:
  "scanEntries d es ps =
     ps @ [entryPath d name. RegularFile name \<leftarrow> es,
                             isImageExtension (map tolower (extension name))]"
  by (induction d es ps rule: scanEntries.induct) simp_all

lemma extension_final:
  assumes "base \<noteq> []" "CHR ''.'' \<notin> set ext" "\<not> (base = ''.'' \<and> ext = [])"
  shows "extension (base @ ''.'' @ ext) = ''.'' @ ext"
proof -
  let ?name = "base @ ''.'' @ ext"
  have tw: "takeWhile (\<lambda>c. c \<noteq> CHR ''.'') (rev ?name) = rev ext"
    using assms(2) by (auto simp: takeWhile_tail takeWhile_eq_all_conv)
  have n1: "?name \<noteq> ''.''" using assms(1) by (cases base) simp_all
  have n2: "?name \<noteq> ''..''"
  proof
    assume e: "?name = ''..''"
    then have "length ?name = 2" by simp
    then have l: "length base + length ext = 1" by simp
    with assms(1) have "ext = []" "length base = 1" by (cases base; simp)+
    with e have "base = ''.''" by simp
    with \<open>ext = []\<close> assms(3) show False by simp
  qed
  have k: "length (rev ext) \<noteq> length ?name" "Suc (length (rev ext)) \<noteq> length ?name"
    using assms(1) by simp_all
  have "length ?name - Suc (length (rev ext)) = length base" by simp
  then have "drop (length ?name - Suc (length (rev ext))) ?name = ''.'' @ ext" by simp
  with n1 n2 k show ?thesis unfolding extension_def tw Let_def by (simp only: if_False, simp)
qed

lemma loadLoop_textures:
  assumes "length ts = i + length ps" "\<forall>j. i \<le> j \<and> j < length ts \<longrightarrow> ts ! j = None"
  shows "fst (loadLoop IMG_Load createTexture ps i (ts, msgs)) =
           take i ts @ map (\<lambda>p. Option.bind (IMG_Load p) createTexture) ps"
  using assms
proof (induction ps arbitrary: i ts msgs)
  case Nil
  then show ?case by simp
next
  case (Cons p ps)
  have i: "i < length ts" using Cons.prems(1) by simp
  show ?case
  proof (cases "Option.bind (IMG_Load p) createTexture")
    case None
    have keep: "\<forall>j. Suc i \<le> j \<and> j < length (ts[i := None]) \<longrightarrow> ts[i := None] ! j = None"
      using Cons.prems(2) by simp
    have same: "ts[i := None] = ts" using Cons.prems(2) i by (simp add: list_update_same_conv)
    have "fst (loadLoop IMG_Load createTexture (p # ps) i (ts, msgs)) =
            take (Suc i) ts @ map (\<lambda>p. Option.bind (IMG_Load p) createTexture) ps"
    proof (cases "IMG_Load p")
      case n: None
      have "fst (loadLoop IMG_Load createTexture ps (Suc i) (ts, msgs @ [UnableToLoadImage p])) =
              take (Suc i) ts @ map (\<lambda>p. Option.bind (IMG_Load p) createTexture) ps"
        using Cons.prems by (intro Cons.IH) simp_all
      with n show ?thesis by simp
    next
      case (Some s)
      with None have c: "createTexture s = None" by simp
      have "fst (loadLoop IMG_Load createTexture ps (Suc i)
                   (ts[i := None], msgs @ [UnableToCreateTexture p])) =
              take (Suc i) (ts[i := None]) @ map (\<lambda>p. Option.bind (IMG_Load p) createTexture) ps"
        using Cons.prems keep by (intro Cons.IH) simp_all
      with Some c same show ?thesis by simp
    qed
    moreover have "take (Suc i) ts = take i ts @ [None]"
      using Cons.prems(2) i by (simp add: take_Suc_conv_app_nth)
    ultimately show ?thesis using None by simp
  next
    case (Some t)
    then obtain s where s: "IMG_Load p = Some s" "createTexture s = Some t"
      by (cases "IMG_Load p") simp_all
    have keep: "\<forall>j. Suc i \<le> j \<and> j < length (ts[i := Some t]) \<longrightarrow> ts[i := Some t] ! j = None"
      using Cons.prems(2) by simp
    have "fst (loadLoop IMG_Load createTexture ps (Suc i) (ts[i := Some t], msgs)) =
            take (Suc i) (ts[i := Some t]) @ map (\<lambda>p. Option.bind (IMG_Load p) createTexture) ps"
      using Cons.prems keep by (intro Cons.IH) simp_all
    moreover have "take (Suc i) (ts[i := Some t]) = take i ts @ [Some t]"
      using i by (simp add: take_Suc_conv_app_nth)
    ultimately show ?thesis using s Some by simp
  qed
qed

lemma loadLoop_messages:
  "length (snd (loadLoop IMG_Load createTexture ps i (ts, msgs))) =
     length msgs + length (filter (\<lambda>p. Option.bind (IMG_Load p) createTexture = None) ps)"
proof (induction ps arbitrary: i ts msgs)
  case Nil
  then show ?case by simp
next
  case (Cons p ps)
  show ?case
  proof (cases "IMG_Load p")
    case None
    then show ?thesis using Cons.IH[of "Suc i" ts "msgs @ [UnableToLoadImage p]"] by simp
  next
    case (Some s)
    show ?thesis
    proof (cases "createTexture s")
      case None
      with Some show ?thesis
        using Cons.IH[of "Suc i" "ts[i := None]" "msgs @ [UnableToCreateTexture p]"] by simp
    next
      case t: (Some t)
      with Some show ?thesis using Cons.IH[of "Suc i" "ts[i := Some t]" msgs] by simp
    qed
  qed
qed

lemma sort_empty_iff: "sort xs = [] \<longleftrightarrow> xs = []"
  by (metis length_sort length_0_conv)

lemma load_fresh:
  assumes "imagePaths v = []" "textures v = []"
    and "status_of fs d = Found (Directory name entries)" "iteration_error fs d = None"
    and "scanEntries d entries [] \<noteq> []"
  shows "fst (loadImagesFromDirectory fs IMG_Load createTexture d v) = Returned True \<and>
         imagePaths (snd (loadImagesFromDirectory fs IMG_Load createTexture d v)) =
           sort (scanEntries d entries []) \<and>
         textures (snd (loadImagesFromDirectory fs IMG_Load createTexture d v)) =
           map (\<lambda>p. Option.bind (IMG_Load p) createTexture) (sort (scanEntries d entries [])) \<and>
         length (cerr (snd (loadImagesFromDirectory fs IMG_Load createTexture d v))) =
           length (cerr v) +
           length (filter (\<lambda>p. Option.bind (IMG_Load p) createTexture = None)
                     (sort (scanEntries d entries [])))"
proof -
  let ?src = "sort (scanEntries d entries [])"
  let ?ts = "replicate (length ?src) (None :: texture option)"
  have r: "resize (textures v) n = replicate n None" for n
    using assms(2) by (simp add: resize_def)
  have l: "loadImagesFromDirectory fs IMG_Load createTexture d v =
             (Returned True,
              v\<lparr>imagePaths := ?src,
                textures := fst (loadLoop IMG_Load createTexture ?src 0 (?ts, cerr v)),
                cerr := snd (loadLoop IMG_Load createTexture ?src 0 (?ts, cerr v))\<rparr>)"
    using assms(1,3,4,5) by (simp add: loadImagesFromDirectory_def Let_def r)
  have t: "fst (loadLoop IMG_Load createTexture ?src 0 (?ts, cerr v)) =
             take 0 ?ts @ map (\<lambda>p. Option.bind (IMG_Load p) createTexture) ?src"
    by (rule loadLoop_textures) simp_all
  show ?thesis unfolding l using t by (simp add: loadLoop_messages)
qed

lemma load_throws_iff:
  "fst (loadImagesFromDirectory fs IMG_Load createTexture d v) = Thrown \<longleftrightarrow>
     status_of fs d = StatusError \<or>
     (\<exists>name entries. status_of fs d = Found (Directory name entries) \<and>
                      iteration_error fs d \<noteq> None)"
proof (cases "status_of fs d")
  case (Found node)
  then show ?thesis
    by (cases node; cases "iteration_error fs d")
      (simp_all add: loadImagesFromDirectory_def Let_def)
qed (simp_all add: loadImagesFromDirectory_def)

lemma load_succeeds_iff:
  assumes "imagePaths v = []"
  shows "fst (loadImagesFromDirectory fs IMG_Load createTexture d v) = Returned True \<longleftrightarrow>
           (\<exists>name entries. status_of fs d = Found (Directory name entries) \<and>
                            iteration_error fs d = None \<and>
                            scanEntries d entries [] \<noteq> [])"
proof (cases "status_of fs d")
  case (Found node)
  then show ?thesis using assms
    by (cases node; cases "iteration_error fs d")
      (simp_all add: loadImagesFromDirectory_def Let_def)
qed (simp_all add: loadImagesFromDirectory_def)

lemma load_returns_false_iff:
  assumes "imagePaths v = []"
  shows "fst (loadImagesFromDirectory fs IMG_Load createTexture d v) = Returned False \<longleftrightarrow>
           status_of fs d = NotFound \<or>
           (\<exists>name. status_of fs d = Found (RegularFile name)) \<or>
           (\<exists>name. status_of fs d = Found (OtherNode name)) \<or>
           (\<exists>name entries. status_of fs d = Found (Directory name entries) \<and>
                            iteration_error fs d = None \<and>
                            scanEntries d entries [] = [])"
proof (cases "status_of fs d")
  case (Found node)
  then show ?thesis using assms
    by (cases node; cases "iteration_error fs d")
      (simp_all add: loadImagesFromDirectory_def Let_def)
qed (simp_all add: loadImagesFromDirectory_def)

lemma load_index:
  "currentIndex (snd (loadImagesFromDirectory fs IMG_Load createTexture d v)) = currentIndex v \<and>
   (fst (loadImagesFromDirectory fs IMG_Load createTexture d v) = Returned True \<longrightarrow>
      imagePaths (snd (loadImagesFromDirectory fs IMG_Load createTexture d v)) \<noteq> [])"
proof (cases "status_of fs d")
  case (Found node)
  then show ?thesis
    by (cases node; cases "iteration_error fs d")
      (simp_all add: loadImagesFromDirectory_def Let_def sort_empty_iff)
qed (simp_all add: loadImagesFromDirectory_def)

lemma demo_scan:
  "scanEntries ''shots'' demoEntries [] =
     [''shots/b.PNG'', ''shots/a.jpg'', ''shots/e.tiff'', ''shots/c.jpeg'', ''shots/d.bmp'']"
  by (simp add: demoEntries_def extension_def isImageExtension_def tolower_def entryPath_def)

lemma demo_sort:
  "sort [''shots/b.PNG'', ''shots/a.jpg'', ''shots/e.tiff'', ''shots/c.jpeg'', ''shots/d.bmp''] =
     [''shots/a.jpg'', ''shots/b.PNG'', ''shots/c.jpeg'', ''shots/d.bmp'', ''shots/e.tiff'']"
  by (simp add: less_eq_char_def less_char_def)

lemma demo_status:
  "status_of demoFs ''shots'' = Found (Directory ''shots'' demoEntries)"
  "iteration_error demoFs ''shots'' = None"
  "status_of demoFs ''locked'' = Found (Directory ''locked'' demoEntries)"
  "iteration_error demoFs ''locked'' = Some 0"
  "status_of demoFs ''elsewhere'' = NotFound"
  "status_of demoFs (replicate 300 CHR ''a'') = StatusError"
  by (simp_all add: demoFs_def)

lemma demo_load_two:
  "loadImagesFromDirectory demoFs failTwo createOk ''shots'' TimelapseViewer =
     (Returned True, TimelapseViewer
        \<lparr>imagePaths := [''shots/a.jpg'', ''shots/b.PNG'', ''shots/c.jpeg'', ''shots/d.bmp'',
                        ''shots/e.tiff''],
         textures := [Some \<lparr>tex_w = 4000, tex_h = 3000\<rparr>, None,
                      Some \<lparr>tex_w = 4000, tex_h = 3000\<rparr>, None,
                      Some \<lparr>tex_w = 4000, tex_h = 3000\<rparr>],
         cerr := [UnableToLoadImage ''shots/b.PNG'', UnableToLoadImage ''shots/d.bmp'']\<rparr>)"
  by (simp add: loadImagesFromDirectory_def demo_status demo_scan demo_sort resize_def
      failTwo_def createOk_def TimelapseViewer_def)

lemma demo_load_none:
  "loadImagesFromDirectory demoFs failAll createOk ''shots'' TimelapseViewer =
     (Returned True, TimelapseViewer
        \<lparr>imagePaths := [''shots/a.jpg'', ''shots/b.PNG'', ''shots/c.jpeg'', ''shots/d.bmp'',
                        ''shots/e.tiff''],
         textures := [None, None, None, None, None],
         cerr := [UnableToLoadImage ''shots/a.jpg'', UnableToLoadImage ''shots/b.PNG'',
                  UnableToLoadImage ''shots/c.jpeg'', UnableToLoadImage ''shots/d.bmp'',
                  UnableToLoadImage ''shots/e.tiff'']\<rparr>)"
  by (simp add: loadImagesFromDirectory_def demo_status demo_scan demo_sort resize_def
      failAll_def TimelapseViewer_def)

lemma demo_load_thrown:
  "loadImagesFromDirectory demoFs failTwo createOk ''locked'' TimelapseViewer =
     (Thrown, TimelapseViewer)"
  "loadImagesFromDirectory demoFs failTwo createOk (replicate 300 CHR ''a'') TimelapseViewer =
     (Thrown, TimelapseViewer)"
  by (simp_all add: loadImagesFromDirectory_def demo_status TimelapseViewer_def)

lemma load_keeps:
  "currentIndex (snd (loadImagesFromDirectory fs IMG_Load createTexture d v)) = currentIndex v \<and>
   targetFPS (snd (loadImagesFromDirectory fs IMG_Load createTexture d v)) = targetFPS v \<and>
   playing (snd (loadImagesFromDirectory fs IMG_Load createTexture d v)) = playing v"
proof (cases "status_of fs d")
  case (Found node)
  then show ?thesis
    by (cases node; cases "iteration_error fs d")
      (simp_all add: loadImagesFromDirectory_def Let_def)
qed (simp_all add: loadImagesFromDirectory_def)

lemma initialize_keeps:
  "targetFPS (snd (initialize lib fs IMG_Load createTexture d fm fps v)) = fps \<and>
   currentIndex (snd (initialize lib fs IMG_Load createTexture d fm fps v)) = currentIndex v \<and>
   playing (snd (initialize lib fs IMG_Load createTexture d fm fps v)) = playing v"
  by (simp add: initialize_def Let_def load_keeps)

lemma initialize_nonempty:
  assumes "fst (initialize lib fs IMG_Load createTexture d fm fps v) = Returned True"
  shows "imagePaths (snd (initialize lib fs IMG_Load createTexture d fm fps v)) \<noteq> []"
proof -
  let ?v3 = "v\<lparr>fullscreen := fm, targetFPS := fps, window := True,
               windowTitle := ''High-Speed Timelapse Viewer'', renderer := True,
               windowWidth := fst (SDL_GetWindowSize lib),
               windowHeight := snd (SDL_GetWindowSize lib)\<rparr>"
  from assms have ok: "SDL_Init_ok lib" "IMG_Init_ok lib" "SDL_CreateWindow_ok lib"
    "SDL_CreateRenderer_ok lib"
    by (auto simp: initialize_def Let_def split: if_splits)
  then have i: "initialize lib fs IMG_Load createTexture d fm fps v =
                  loadImagesFromDirectory fs IMG_Load createTexture d ?v3"
    by (simp add: initialize_def Let_def)
  with assms load_index[of fs IMG_Load createTexture d ?v3] show ?thesis by simp
qed

subsection \<open>The concrete viewers are well formed\<close>

lemma demoViewer_ok:
  "frames_ok demoViewer \<and> display_ok demoViewer \<and> \<not> playing demoViewer \<and>
   currentIndex demoViewer < length (imagePaths demoViewer)"
  by (simp add: demoViewer_def TimelapseViewer_def frames_ok_def display_ok_def texture_ok_def)

lemma playingViewer_ok:
  "frames_ok playingViewer \<and> display_ok playingViewer \<and> playing playingViewer \<and>
   currentIndex playingViewer < length (imagePaths playingViewer)"
  by (simp add: playingViewer_def demoViewer_def TimelapseViewer_def frames_ok_def
      display_ok_def texture_ok_def)

text \<open>
  A run from the paused viewer: the space bar is pressed in the first iteration, at the
  reading 0, and three iterations follow at 3, 5 and 9 ms.
\<close>

lemma demo_run:
  "advances (run 0 0 (([SDL_KEYDOWN SDLK_SPACE], 0) # ticks [3, 5, 9]) demoViewer) =
     Some (2, 2, 9000000)"
  by (simp add: advances_def run_def ticks_def demo_eval loop_eval)

section \<open>The claims\<close>

text \<open>
  C4. For a non-empty sequence of \<open>N\<close> frames and every start index in it, \<open>N\<close> presses
  of the right arrow handled while paused bring the index back to where it started, and
  so do \<open>N\<close> presses of the left arrow; the viewer stays paused and keeps its paths.
\<close>

theorem step_wraps_around:
  assumes "frames_ok v" "display_ok v" "\<not> playing v" "currentIndex v < length (imagePaths v)"
  shows "(\<exists>v'. pollEvents (replicate (length (imagePaths v)) (SDL_KEYDOWN SDLK_RIGHT)) v = Inr v'
              \<and> currentIndex v' = currentIndex v \<and> \<not> playing v'
              \<and> imagePaths v' = imagePaths v) \<and>
         (\<exists>v'. pollEvents (replicate (length (imagePaths v)) (SDL_KEYDOWN SDLK_LEFT)) v = Inr v'
              \<and> currentIndex v' = currentIndex v \<and> \<not> playing v'
              \<and> imagePaths v' = imagePaths v)"
proof
  let ?n = "length (imagePaths v)"
  from steps_forward[OF assms, of ?n] obtain p where
    "pollEvents (replicate ?n (SDL_KEYDOWN SDLK_RIGHT)) v =
       Inr (v\<lparr>currentIndex := (currentIndex v + ?n) mod ?n, presented := p\<rparr>)"
    by blast
  moreover have "(currentIndex v + ?n) mod ?n = currentIndex v" using assms(4) by simp
  ultimately show "\<exists>v'. pollEvents (replicate ?n (SDL_KEYDOWN SDLK_RIGHT)) v = Inr v'
      \<and> currentIndex v' = currentIndex v \<and> \<not> playing v' \<and> imagePaths v' = imagePaths v"
    using assms(3) by simp
next
  let ?n = "length (imagePaths v)"
  from steps_backward[OF assms, of ?n] obtain p where
    "pollEvents (replicate ?n (SDL_KEYDOWN SDLK_LEFT)) v =
       Inr (v\<lparr>currentIndex := (currentIndex v + ?n * (?n - 1)) mod ?n, presented := p\<rparr>)"
    by blast
  moreover have "(currentIndex v + ?n * (?n - 1)) mod ?n = currentIndex v" using assms(4) by simp
  ultimately show "\<exists>v'. pollEvents (replicate ?n (SDL_KEYDOWN SDLK_LEFT)) v = Inr v'
      \<and> currentIndex v' = currentIndex v \<and> \<not> playing v' \<and> imagePaths v' = imagePaths v"
    using assms(3) by simp
qed

theorem step_wraps_around_witness:
  "frames_ok demoViewer \<and> display_ok demoViewer \<and> \<not> playing demoViewer \<and>
   currentIndex demoViewer < length (imagePaths demoViewer) \<and>
   (\<exists>v'. pollEvents (replicate 3 (SDL_KEYDOWN SDLK_RIGHT)) demoViewer = Inr v'
        \<and> currentIndex v' = 0 \<and> \<not> playing v') \<and>
   (\<exists>v'. pollEvents (replicate 3 (SDL_KEYDOWN SDLK_LEFT)) demoViewer = Inr v'
        \<and> currentIndex v' = 0 \<and> \<not> playing v')"
proof -
  have ok: "frames_ok demoViewer" "display_ok demoViewer" "\<not> playing demoViewer"
    "currentIndex demoViewer < length (imagePaths demoViewer)"
    using demoViewer_ok by simp_all
  have n: "length (imagePaths demoViewer) = 3" "currentIndex demoViewer = 0"
    by (simp_all add: demoViewer_def TimelapseViewer_def)
  from step_wraps_around[OF ok] ok show ?thesis unfolding n by blast
qed

text \<open>
  C5. While playing, the right and the left arrow change nothing: the handler returns
  the viewer it was given, so the index and the playing flag are as before.
\<close>

theorem manual_step_ignored_while_playing:
  assumes "playing v"
  shows "handleEvent (SDL_KEYDOWN SDLK_RIGHT) v = Inr v \<and>
         handleEvent (SDL_KEYDOWN SDLK_LEFT) v = Inr v"
  using assms by simp

theorem manual_step_ignored_while_playing_witness:
  "playing playingViewer \<and>
   handleEvent (SDL_KEYDOWN SDLK_RIGHT) playingViewer = Inr playingViewer \<and>
   handleEvent (SDL_KEYDOWN SDLK_LEFT) playingViewer = Inr playingViewer"
proof -
  have p: "playing playingViewer" by (simp add: playingViewer_def)
  from manual_step_ignored_while_playing[OF p] p show ?thesis by simp
qed

text \<open>
  C7. When the current index is beyond the stored textures, or the texture there is
  null, \<^verbatim>\<open>renderCurrentFrame\<close> returns without a fault and leaves the viewer exactly as
  it was: nothing is presented and the playback state is untouched.
\<close>

theorem missing_frame_draw_is_noop:
  assumes "length (textures v) \<le> currentIndex v \<or> textures v ! currentIndex v = None"
  shows "renderCurrentFrame v = Inr v"
  using assms by (auto simp: renderCurrentFrame_def)

theorem missing_frame_draw_is_noop_witness:
  "textures (demoViewer\<lparr>currentIndex := 1\<rparr>) ! currentIndex (demoViewer\<lparr>currentIndex := 1\<rparr>) = None \<and>
   renderCurrentFrame (demoViewer\<lparr>currentIndex := 1\<rparr>) = Inr (demoViewer\<lparr>currentIndex := 1\<rparr>) \<and>
   length (textures (demoViewer\<lparr>currentIndex := 7\<rparr>)) \<le> currentIndex (demoViewer\<lparr>currentIndex := 7\<rparr>) \<and>
   renderCurrentFrame (demoViewer\<lparr>currentIndex := 7\<rparr>) = Inr (demoViewer\<lparr>currentIndex := 7\<rparr>)"
proof -
  have a: "textures (demoViewer\<lparr>currentIndex := 1\<rparr>) ! currentIndex (demoViewer\<lparr>currentIndex := 1\<rparr>) = None"
    by (simp add: demoViewer_def TimelapseViewer_def)
  have b: "length (textures (demoViewer\<lparr>currentIndex := 7\<rparr>)) \<le> currentIndex (demoViewer\<lparr>currentIndex := 7\<rparr>)"
    by (simp add: demoViewer_def TimelapseViewer_def)
  from a have "renderCurrentFrame (demoViewer\<lparr>currentIndex := 1\<rparr>) = Inr (demoViewer\<lparr>currentIndex := 1\<rparr>)"
    by (intro missing_frame_draw_is_noop) simp
  moreover from b have "renderCurrentFrame (demoViewer\<lparr>currentIndex := 7\<rparr>) = Inr (demoViewer\<lparr>currentIndex := 7\<rparr>)"
    by (intro missing_frame_draw_is_noop) simp
  ultimately show ?thesis using a b by simp
qed

text \<open>
  C2. While playing, with a target rate \<open>F \<ge> 1\<close> the interval is \<open>1000 div F\<close>
  milliseconds. An iteration whose clock reading is at least that many whole
  milliseconds after the last advance moves the index on by one modulo \<open>N\<close> and sets the
  time of the last advance to the reading itself; an iteration that comes earlier
  leaves both as they are. With \<open>F = 240\<close> the interval is 4 ms, and readings at 0, 3,
  5 and 9 ms after the start advance at 5 and at 9 only: the index, the count of
  advances and the time of the last advance are \<open>(0, 0, 0)\<close> after the readings 0 and 3,
  \<open>(1, 1, 5 ms)\<close> after 5 and \<open>(2, 2, 9 ms)\<close> after 9.
\<close>

theorem advance_when_interval_elapsed:
  assumes "playing v" "1 \<le> targetFPS v"
    and "frames_ok v" "display_ok v" "currentIndex v < length (imagePaths v)"
    and "0 \<le> frameCount c" "frameCount c < 2 ^ 31 - 1"
  shows "msPerFrame (targetFPS v) = Inr (1000 div targetFPS v) \<and>
         (1000 div targetFPS v \<le> milliseconds (t - lastFrameTime c) \<longrightarrow>
            (\<exists>v' c'. update t (v, c) = Inr (v', c') \<and>
               currentIndex v' = (currentIndex v + 1) mod length (imagePaths v) \<and>
               lastFrameTime c' = t)) \<and>
         (milliseconds (t - lastFrameTime c) < 1000 div targetFPS v \<longrightarrow>
            (\<exists>v' c'. update t (v, c) = Inr (v', c') \<and>
               currentIndex v' = currentIndex v \<and>
               lastFrameTime c' = lastFrameTime c)) \<and>
         msPerFrame (targetFPS playingViewer) = Inr 4 \<and>
         map (\<lambda>ts. advances (run_loop (ticks ts)
                       (playingViewer, \<lparr>lastFrameTime = 0, frameCount = 0, fpsTimer = 0\<rparr>)))
           ([0] # [0, 3] # [0, 3, 5] # [0, 3, 5, 9] # []) =
           [Some (0, 0, 0), Some (0, 0, 0), Some (1, 1, 5000000), Some (2, 2, 9000000)]"
proof -
  have nz: "targetFPS v \<noteq> 0" and sd: "1000 sdiv targetFPS v = 1000 div targetFPS v"
    using assms(2) by (simp_all add: sdiv_pos)
  have a: "msPerFrame (targetFPS v) = Inr (1000 div targetFPS v)"
    using nz sd by (simp add: msPerFrame_def)
  have b: "\<exists>v' c'. update t (v, c) = Inr (v', c') \<and>
               currentIndex v' = (currentIndex v + 1) mod length (imagePaths v) \<and>
               lastFrameTime c' = t"
    if due: "1000 div targetFPS v \<le> milliseconds (t - lastFrameTime c)"
  proof -
    let ?i = "(currentIndex v + 1) mod length (imagePaths v)"
    from due sd have "1000 sdiv targetFPS v \<le> milliseconds (t - lastFrameTime c)" by simp
    from update_due[OF assms(1) nz this assms(3-7)] obtain p where
      u: "update t (v, c) =
            Inr (measureFPS t (v\<lparr>currentIndex := ?i, presented := p\<rparr>,
                               c\<lparr>lastFrameTime := t, frameCount := frameCount c + 1\<rparr>))"
      by blast
    let ?r = "measureFPS t (v\<lparr>currentIndex := ?i, presented := p\<rparr>,
                            c\<lparr>lastFrameTime := t, frameCount := frameCount c + 1\<rparr>)"
    have "update t (v, c) = Inr (fst ?r, snd ?r)" using u by simp
    moreover have "currentIndex (fst ?r) = ?i" "lastFrameTime (snd ?r) = t"
      using measureFPS_viewer[of t "v\<lparr>currentIndex := ?i, presented := p\<rparr>"
          "c\<lparr>lastFrameTime := t, frameCount := frameCount c + 1\<rparr>"]
      by simp_all
    ultimately show ?thesis by metis
  qed
  have c: "\<exists>v' c'. update t (v, c) = Inr (v', c') \<and> currentIndex v' = currentIndex v \<and>
               lastFrameTime c' = lastFrameTime c"
    if early: "milliseconds (t - lastFrameTime c) < 1000 div targetFPS v"
  proof -
    from early sd have "milliseconds (t - lastFrameTime c) < 1000 sdiv targetFPS v" by simp
    from update_not_due[OF assms(1) nz this]
    have u: "update t (v, c) = Inr (measureFPS t (v, c))" .
    let ?r = "measureFPS t (v, c)"
    have "update t (v, c) = Inr (fst ?r, snd ?r)" using u by simp
    moreover have "currentIndex (fst ?r) = currentIndex v"
      "lastFrameTime (snd ?r) = lastFrameTime c"
      using measureFPS_viewer[of t v c] by simp_all
    ultimately show ?thesis by metis
  qed
  have d: "msPerFrame (targetFPS playingViewer) = Inr 4"
    by (simp add: demo_eval msPerFrame_def)
  have e: "map (\<lambda>ts. advances (run_loop (ticks ts)
                       (playingViewer, \<lparr>lastFrameTime = 0, frameCount = 0, fpsTimer = 0\<rparr>)))
           ([0] # [0, 3] # [0, 3, 5] # [0, 3, 5, 9] # []) =
           [Some (0, 0, 0), Some (0, 0, 0), Some (1, 1, 5000000), Some (2, 2, 9000000)]"
    by (simp add: advances_def ticks_def demo_eval loop_eval)
  from a b c d e show ?thesis by blast
qed

theorem advance_when_interval_elapsed_witness:
  "playing playingViewer \<and> 1 \<le> targetFPS playingViewer \<and> frames_ok playingViewer \<and>
   display_ok playingViewer \<and> currentIndex playingViewer < length (imagePaths playingViewer) \<and>
   (\<exists>v' c'. update 5000000 (playingViewer, \<lparr>lastFrameTime = 0, frameCount = 0, fpsTimer = 0\<rparr>)
               = Inr (v', c') \<and> currentIndex v' = 1 \<and> lastFrameTime c' = 5000000) \<and>
   (\<exists>v' c'. update 3000000 (playingViewer, \<lparr>lastFrameTime = 0, frameCount = 0, fpsTimer = 0\<rparr>)
               = Inr (v', c') \<and> currentIndex v' = 0 \<and> lastFrameTime c' = 0)"
proof -
  let ?c = "\<lparr>lastFrameTime = 0, frameCount = 0, fpsTimer = 0\<rparr>"
  have ok: "playing playingViewer" "1 \<le> targetFPS playingViewer" "frames_ok playingViewer"
    "display_ok playingViewer" "currentIndex playingViewer < length (imagePaths playingViewer)"
    using playingViewer_ok by (simp_all add: demo_eval)
  have cnt: "0 \<le> frameCount ?c" "frameCount ?c < 2 ^ 31 - 1" by simp_all
  have v: "targetFPS playingViewer = 240" "currentIndex playingViewer = 0"
    "length (imagePaths playingViewer) = 3"
    by (simp_all add: demo_eval)
  have m: "milliseconds (5000000 - lastFrameTime ?c) = 5" "milliseconds (3000000 - lastFrameTime ?c) = 3"
    by (simp_all add: milliseconds_def)
  from advance_when_interval_elapsed[OF ok cnt, of 5000000]
  have "\<exists>v' c'. update 5000000 (playingViewer, ?c) = Inr (v', c') \<and> currentIndex v' = 1 \<and>
          lastFrameTime c' = 5000000"
    unfolding v m by simp
  moreover from advance_when_interval_elapsed[OF ok cnt, of 3000000]
  have "\<exists>v' c'. update 3000000 (playingViewer, ?c) = Inr (v', c') \<and> currentIndex v' = 0 \<and>
          lastFrameTime c' = 0"
    unfolding v m by simp
  ultimately show ?thesis using ok by blast
qed

text \<open>
  C3, as stated, fails: with the scale and the products taken exactly, a frame of 5472
  by 3648 in a viewport of 800 by 600 would be drawn 800 wide; the code, which computes
  in single precision, draws it 799 wide.
\<close>

theorem draw_rectangle_exact_counterexample:
  "renderRect 800 600 5472 3648 =
     Inr \<lparr>rect_x = 0, rect_y = 33, rect_w = 799, rect_h = 533\<rparr> \<and>
   specRect 800 600 5472 3648 = \<lparr>rect_x = 0, rect_y = 33, rect_w = 800, rect_h = 533\<rparr>"
  by (simp add: rect_eval specRect_def)

text \<open>
  C3, amended. For a frame of positive width and height and a viewport of less than
  \<open>2 ^ 28\<close> pixels each way, the draw rectangle is computed without a fault from one
  scale \<open>s\<close>, the smaller of viewport width over frame width and viewport height over
  frame height; its size is frame width times \<open>s\<close> and frame height times \<open>s\<close> with
  the fraction discarded, and it is centred by halving the two differences with integer
  division. Every conversion, quotient and product is a single-precision operation:
  its exact result rounded to the nearest number with a 24-bit significand. For a frame
  below \<open>2 ^ 24\<close> pixels and a viewport of at most \<open>2 ^ 22\<close> pixels each way, the
  width and the height are each within one pixel of the exact ones. A frame of 4000 by
  3000 in a viewport of 800 by 800 is drawn 800 by 600 at \<open>(0, 100)\<close>.
\<close>

theorem draw_rectangle:
  assumes "0 < fw" "0 < fh" "0 \<le> vw" "vw < 2 ^ 28" "0 \<le> vh" "vh < 2 ^ 28"
  shows "renderRect vw vh fw fh =
           (let s = min (float_round (int_to_float vw / int_to_float fw))
                        (float_round (int_to_float vh / int_to_float fh));
                renderWidth = \<lfloor>float_round (int_to_float fw * s)\<rfloor>;
                renderHeight = \<lfloor>float_round (int_to_float fh * s)\<rfloor>
            in Inr \<lparr>rect_x = (vw - renderWidth) sdiv 2, rect_y = (vh - renderHeight) sdiv 2,
                     rect_w = renderWidth, rect_h = renderHeight\<rparr>) \<and>
         (fw < 2 ^ 24 \<and> fh < 2 ^ 24 \<and> vw \<le> 2 ^ 22 \<and> vh \<le> 2 ^ 22 \<longrightarrow>
            (\<exists>r. renderRect vw vh fw fh = Inr r \<and>
                 \<bar>rect_w r - rect_w (specRect vw vh fw fh)\<bar> \<le> 1 \<and>
                 \<bar>rect_h r - rect_h (specRect vw vh fw fh)\<bar> \<le> 1)) \<and>
         renderRect 800 800 4000 3000 =
           Inr \<lparr>rect_x = 0, rect_y = 100, rect_w = 800, rect_h = 600\<rparr>"
proof -
  have a: "renderRect vw vh fw fh =
           (let s = min (float_round (int_to_float vw / int_to_float fw))
                        (float_round (int_to_float vh / int_to_float fh));
                renderWidth = \<lfloor>float_round (int_to_float fw * s)\<rfloor>;
                renderHeight = \<lfloor>float_round (int_to_float fh * s)\<rfloor>
            in Inr \<lparr>rect_x = (vw - renderWidth) sdiv 2, rect_y = (vh - renderHeight) sdiv 2,
                     rect_w = renderWidth, rect_h = renderHeight\<rparr>)"
    using renderRect_ok[OF assms] by (simp add: Let_def)
  have b: "\<exists>r. renderRect vw vh fw fh = Inr r \<and>
                 \<bar>rect_w r - rect_w (specRect vw vh fw fh)\<bar> \<le> 1 \<and>
                 \<bar>rect_h r - rect_h (specRect vw vh fw fh)\<bar> \<le> 1"
    if "fw < 2 ^ 24 \<and> fh < 2 ^ 24 \<and> vw \<le> 2 ^ 22 \<and> vh \<le> 2 ^ 22"
    using that assms(1,2,3,5) by (intro rect_close) simp_all
  from a b demoRect show ?thesis by blast
qed

theorem draw_rectangle_witness:
  "(0::int) < 1920 \<and> (0::int) < 1080 \<and> (0::int) \<le> 1280 \<and> (1280::int) < 2 ^ 28 \<and>
   (0::int) \<le> 720 \<and> (720::int) < 2 ^ 28 \<and>
   (1920::int) < 2 ^ 24 \<and> (1080::int) < 2 ^ 24 \<and> (1280::int) \<le> 2 ^ 22 \<and> (720::int) \<le> 2 ^ 22 \<and>
   renderRect 1280 720 1920 1080 = Inr \<lparr>rect_x = 0, rect_y = 0, rect_w = 1280, rect_h = 720\<rparr> \<and>
   (\<exists>r. renderRect 1280 720 1920 1080 = Inr r \<and>
        \<bar>rect_w r - rect_w (specRect 1280 720 1920 1080)\<bar> \<le> 1 \<and>
        \<bar>rect_h r - rect_h (specRect 1280 720 1920 1080)\<bar> \<le> 1)"
proof -
  have h: "(0::int) < 1920" "(0::int) < 1080" "(0::int) \<le> 1280" "(1280::int) < 2 ^ 28"
    "(0::int) \<le> 720" "(720::int) < 2 ^ 28"
    by simp_all
  have g: "(1920::int) < 2 ^ 24 \<and> (1080::int) < 2 ^ 24 \<and> (1280::int) \<le> 2 ^ 22 \<and>
           (720::int) \<le> 2 ^ 22"
    by simp
  have sx: "float_round (int_to_float 1280 / int_to_float 1920) = 11184811 / 16777216"
    by (simp add: float_eval)
  have sy: "float_round (int_to_float 720 / int_to_float 1080) = 11184811 / 16777216"
    by (simp add: float_eval)
  have w: "float_round (int_to_float 1920 * 11184811 / 16777216) = 1280"
    by (simp add: float_eval)
  have v: "float_round (int_to_float 1080 * 11184811 / 16777216) = 720"
    by (simp add: float_eval)
  note t = draw_rectangle[OF h]
  from t have "renderRect 1280 720 1920 1080 =
          (let s = min (float_round (int_to_float 1280 / int_to_float 1920))
                        (float_round (int_to_float 720 / int_to_float 1080));
                renderWidth = \<lfloor>float_round (int_to_float 1920 * s)\<rfloor>;
                renderHeight = \<lfloor>float_round (int_to_float 1080 * s)\<rfloor>
            in Inr \<lparr>rect_x = (1280 - renderWidth) sdiv 2, rect_y = (720 - renderHeight) sdiv 2,
                     rect_w = renderWidth, rect_h = renderHeight\<rparr>)"
    by (rule conjunct1)
  then have a: "renderRect 1280 720 1920 1080 =
          Inr \<lparr>rect_x = 0, rect_y = 0, rect_w = 1280, rect_h = 720\<rparr>"
    unfolding sx sy Let_def by (simp add: w v signed_divide_int_def)
  from t g have b: "\<exists>r. renderRect 1280 720 1920 1080 = Inr r \<and>
        \<bar>rect_w r - rect_w (specRect 1280 720 1920 1080)\<bar> \<le> 1 \<and>
        \<bar>rect_h r - rect_h (specRect 1280 720 1920 1080)\<bar> \<le> 1"
    by blast
  from h g a b show ?thesis by blast
qed

text \<open>
  C9. For a target rate \<open>F \<ge> 1\<close> the interval \<open>1000 / F\<close> is computed without a fault
  and equals \<open>1000 div F\<close>; for \<open>F > 1000\<close> it is 0, and then every iteration whose clock
  reading is not before the last advance moves the index on. Nothing checks the rate:
  \<^verbatim>\<open>initialize\<close> stores whatever it is given, and with \<open>F = 0\<close> the division is by
  zero and the iteration faults.
\<close>

theorem frame_interval_defined:
  shows "(1 \<le> F \<longrightarrow> msPerFrame F = Inr (1000 div F)) \<and>
         (1000 < F \<longrightarrow> msPerFrame F = Inr 0) \<and>
         msPerFrame 0 = Inl DivisionByZero \<and>
         targetFPS (snd (initialize lib fs IMG_Load createTexture d fm F v0)) = F \<and>
         (playing v \<and> targetFPS v = 0 \<longrightarrow> update t (v, c) = Inl DivisionByZero) \<and>
         (playing v \<and> 1000 < targetFPS v \<and> frames_ok v \<and> display_ok v \<and>
          currentIndex v < length (imagePaths v) \<and> 0 \<le> frameCount c \<and>
          frameCount c < 2 ^ 31 - 1 \<and> lastFrameTime c \<le> t \<longrightarrow>
            (\<exists>v' c'. update t (v, c) = Inr (v', c') \<and>
               currentIndex v' = (currentIndex v + 1) mod length (imagePaths v) \<and>
               lastFrameTime c' = t))"
proof -
  have a: "msPerFrame F = Inr (1000 div F)" if "1 \<le> F"
    using that by (simp add: msPerFrame_def sdiv_pos)
  have b: "msPerFrame F = Inr 0" if "1000 < F"
    using that by (simp add: msPerFrame_def sdiv_pos)
  have c: "msPerFrame 0 = Inl DivisionByZero" by (simp add: msPerFrame_def)
  have d: "update t (v, c) = Inl DivisionByZero" if "playing v \<and> targetFPS v = 0"
    using that by (simp add: update_def msPerFrame_def)
  have e: "\<exists>v' c'. update t (v, c) = Inr (v', c') \<and>
               currentIndex v' = (currentIndex v + 1) mod length (imagePaths v) \<and>
               lastFrameTime c' = t"
    if h: "playing v \<and> 1000 < targetFPS v \<and> frames_ok v \<and> display_ok v \<and>
          currentIndex v < length (imagePaths v) \<and> 0 \<le> frameCount c \<and>
          frameCount c < 2 ^ 31 - 1 \<and> lastFrameTime c \<le> t"
  proof -
    let ?i = "(currentIndex v + 1) mod length (imagePaths v)"
    have nz: "targetFPS v \<noteq> 0" using h by simp
    have "1000 sdiv targetFPS v = 0" using h by (simp add: sdiv_pos)
    moreover have "0 \<le> milliseconds (t - lastFrameTime c)"
      using h by (intro milliseconds_nonneg) simp
    ultimately have due: "1000 sdiv targetFPS v \<le> milliseconds (t - lastFrameTime c)" by simp
    from h have p: "playing v" "frames_ok v" "display_ok v"
      "currentIndex v < length (imagePaths v)" "0 \<le> frameCount c" "frameCount c < 2 ^ 31 - 1"
      by simp_all
    from update_due[OF p(1) nz due p(2-6)] obtain q where
      u: "update t (v, c) =
            Inr (measureFPS t (v\<lparr>currentIndex := ?i, presented := q\<rparr>,
                               c\<lparr>lastFrameTime := t, frameCount := frameCount c + 1\<rparr>))"
      by blast
    let ?r = "measureFPS t (v\<lparr>currentIndex := ?i, presented := q\<rparr>,
                            c\<lparr>lastFrameTime := t, frameCount := frameCount c + 1\<rparr>)"
    have "update t (v, c) = Inr (fst ?r, snd ?r)" using u by simp
    moreover have "currentIndex (fst ?r) = ?i" "lastFrameTime (snd ?r) = t"
      using measureFPS_viewer[of t "v\<lparr>currentIndex := ?i, presented := q\<rparr>"
          "c\<lparr>lastFrameTime := t, frameCount := frameCount c + 1\<rparr>"]
      by simp_all
    ultimately show ?thesis by metis
  qed
  have i: "targetFPS (snd (initialize lib fs IMG_Load createTexture d fm F v0)) = F"
    using initialize_keeps[of lib fs IMG_Load createTexture d fm F v0] by simp
  from a b c i d e show ?thesis by blast
qed

theorem frame_interval_defined_witness:
  "(1::int) \<le> 240 \<and> msPerFrame 240 = Inr 4 \<and> (1000::int) < 2000 \<and> msPerFrame 2000 = Inr 0 \<and>
   playing (playingViewer\<lparr>targetFPS := 0\<rparr>) \<and> targetFPS (playingViewer\<lparr>targetFPS := 0\<rparr>) = 0 \<and>
   update 7 (playingViewer\<lparr>targetFPS := 0\<rparr>, \<lparr>lastFrameTime = 0, frameCount = 0, fpsTimer = 0\<rparr>)
     = Inl DivisionByZero \<and>
   targetFPS (snd (initialize demoSdl demoFs failTwo createOk ''shots'' False 0 TimelapseViewer))
     = 0 \<and>
   (\<exists>v' c'. update 7 (playingViewer\<lparr>targetFPS := 2000\<rparr>,
                       \<lparr>lastFrameTime = 0, frameCount = 0, fpsTimer = 0\<rparr>) = Inr (v', c') \<and>
      currentIndex v' = 1 \<and> lastFrameTime c' = 7)"
proof -
  let ?c = "\<lparr>lastFrameTime = 0, frameCount = 0, fpsTimer = 0\<rparr>"
  let ?z = "playingViewer\<lparr>targetFPS := 0\<rparr>"
  let ?f = "playingViewer\<lparr>targetFPS := 2000\<rparr>"
  note T = frame_interval_defined[where lib = demoSdl and fs = demoFs
      and IMG_Load = failTwo and createTexture = createOk and d = "''shots''" and fm = False
      and ?v0.0 = TimelapseViewer]
  have a: "msPerFrame 240 = Inr 4" using T[where F = 240 and v = ?z and t = 7 and c = ?c] by simp
  have b: "msPerFrame 2000 = Inr 0" using T[where F = 2000 and v = ?z and t = 7 and c = ?c] by simp
  have z: "playing ?z" "targetFPS ?z = 0" by (simp_all add: demo_eval)
  with T[where F = 240 and v = ?z and t = 7 and c = ?c]
  have d: "update 7 (?z, ?c) = Inl DivisionByZero" by blast
  have f: "playing ?f \<and> 1000 < targetFPS ?f \<and> frames_ok ?f \<and> display_ok ?f \<and>
          currentIndex ?f < length (imagePaths ?f) \<and> 0 \<le> frameCount ?c \<and>
          frameCount ?c < 2 ^ 31 - 1 \<and> lastFrameTime ?c \<le> 7"
    by (simp add: demo_eval frames_ok_def display_ok_def texture_ok_def)
  have v: "currentIndex ?f = 0" "length (imagePaths ?f) = 3" by (simp_all add: demo_eval)
  from T[where F = 240 and v = ?f and t = 7 and c = ?c] f
  have "\<exists>v' c'. update 7 (?f, ?c) = Inr (v', c') \<and>
          currentIndex v' = (currentIndex ?f + 1) mod length (imagePaths ?f) \<and>
          lastFrameTime c' = 7"
    by blast
  then have e: "\<exists>v' c'. update 7 (?f, ?c) = Inr (v', c') \<and> currentIndex v' = 1 \<and>
          lastFrameTime c' = 7"
    unfolding v by simp
  have i: "targetFPS (snd (initialize demoSdl demoFs failTwo createOk ''shots'' False 0
                             TimelapseViewer)) = 0"
    using T[where F = 0 and v = ?z and t = 7 and c = ?c] by blast
  from a b z d e i show ?thesis by simp
qed

text \<open>
  C1, as stated, fails: when every one of five sources fails to decode the load still
  succeeds, and when two of five fail the sequence has five slots, not three.
\<close>

theorem load_all_failing_counterexample:
  "fst (loadImagesFromDirectory demoFs failAll createOk ''shots'' TimelapseViewer) =
     Returned True \<and>
   length (textures (snd (loadImagesFromDirectory demoFs failTwo createOk ''shots''
                            TimelapseViewer))) = 5"
  by (simp add: demo_load_none demo_load_two)

text \<open>
  C1, amended. On a new viewer the load ends in one of three ways. It throws a
  filesystem error, which nothing catches, exactly when the status of the path cannot
  be determined or the iteration over the directory fails (the directory cannot be
  opened, or an entry cannot be read or examined). It returns false exactly when the
  path names nothing or names something that is not a directory, or the directory is
  iterated to its end and holds no regular file with an image extension. It returns
  true exactly when the directory is iterated to its end and holds such a file: a source
  that fails to decode never fails the load. On success there is one texture slot per
  source, in the sorted order of the paths: the slot of a source that fails to decode
  (no surface, or no texture from the surface) is null, and one non-fatal warning is
  written for it. With two of five sources failing the sequence has five slots, three
  of them frames, and two warnings; with five of five failing the load succeeds with
  five null slots and five warnings. A directory that cannot be opened and a path of
  300 characters make the load throw.
\<close>

theorem load_keeps_a_slot_per_source:
  assumes "imagePaths v = []" "textures v = []"
  shows "(fst (loadImagesFromDirectory fs IMG_Load createTexture d v) = Thrown \<longleftrightarrow>
            status_of fs d = StatusError \<or>
            (\<exists>name entries. status_of fs d = Found (Directory name entries) \<and>
                             iteration_error fs d \<noteq> None)) \<and>
         (fst (loadImagesFromDirectory fs IMG_Load createTexture d v) = Returned False \<longleftrightarrow>
            status_of fs d = NotFound \<or>
            (\<exists>name. status_of fs d = Found (RegularFile name)) \<or>
            (\<exists>name. status_of fs d = Found (OtherNode name)) \<or>
            (\<exists>name entries. status_of fs d = Found (Directory name entries) \<and>
                             iteration_error fs d = None \<and>
                             scanEntries d entries [] = [])) \<and>
         (fst (loadImagesFromDirectory fs IMG_Load createTexture d v) = Returned True \<longleftrightarrow>
            (\<exists>name entries. status_of fs d = Found (Directory name entries) \<and>
                             iteration_error fs d = None \<and>
                             scanEntries d entries [] \<noteq> [])) \<and>
         (\<forall>name entries.
            status_of fs d = Found (Directory name entries) \<and> iteration_error fs d = None \<and>
            scanEntries d entries [] \<noteq> [] \<longrightarrow>
              imagePaths (snd (loadImagesFromDirectory fs IMG_Load createTexture d v)) =
                sort (scanEntries d entries []) \<and>
              textures (snd (loadImagesFromDirectory fs IMG_Load createTexture d v)) =
                map (\<lambda>p. Option.bind (IMG_Load p) createTexture)
                  (sort (scanEntries d entries [])) \<and>
              length (cerr (snd (loadImagesFromDirectory fs IMG_Load createTexture d v))) =
                length (cerr v) +
                length (filter (\<lambda>p. Option.bind (IMG_Load p) createTexture = None)
                          (sort (scanEntries d entries [])))) \<and>
         loadImagesFromDirectory demoFs failTwo createOk ''shots'' TimelapseViewer =
           (Returned True, TimelapseViewer
              \<lparr>imagePaths := [''shots/a.jpg'', ''shots/b.PNG'', ''shots/c.jpeg'',
                              ''shots/d.bmp'', ''shots/e.tiff''],
               textures := [Some \<lparr>tex_w = 4000, tex_h = 3000\<rparr>, None,
                            Some \<lparr>tex_w = 4000, tex_h = 3000\<rparr>, None,
                            Some \<lparr>tex_w = 4000, tex_h = 3000\<rparr>],
               cerr := [UnableToLoadImage ''shots/b.PNG'', UnableToLoadImage ''shots/d.bmp'']\<rparr>) \<and>
         loadImagesFromDirectory demoFs failAll createOk ''shots'' TimelapseViewer =
           (Returned True, TimelapseViewer
              \<lparr>imagePaths := [''shots/a.jpg'', ''shots/b.PNG'', ''shots/c.jpeg'',
                              ''shots/d.bmp'', ''shots/e.tiff''],
               textures := [None, None, None, None, None],
               cerr := [UnableToLoadImage ''shots/a.jpg'', UnableToLoadImage ''shots/b.PNG'',
                        UnableToLoadImage ''shots/c.jpeg'', UnableToLoadImage ''shots/d.bmp'',
                        UnableToLoadImage ''shots/e.tiff'']\<rparr>) \<and>
         loadImagesFromDirectory demoFs failTwo createOk ''locked'' TimelapseViewer =
           (Thrown, TimelapseViewer) \<and>
         loadImagesFromDirectory demoFs failTwo createOk (replicate 300 CHR ''a'')
           TimelapseViewer = (Thrown, TimelapseViewer)"
proof -
  note a = load_throws_iff[of fs IMG_Load createTexture d v]
  note b = load_returns_false_iff[OF assms(1), of fs IMG_Load createTexture d]
  note c = load_succeeds_iff[OF assms(1), of fs IMG_Load createTexture d]
  have e: "imagePaths (snd (loadImagesFromDirectory fs IMG_Load createTexture d v)) =
                sort (scanEntries d entries []) \<and>
              textures (snd (loadImagesFromDirectory fs IMG_Load createTexture d v)) =
                map (\<lambda>p. Option.bind (IMG_Load p) createTexture)
                  (sort (scanEntries d entries [])) \<and>
              length (cerr (snd (loadImagesFromDirectory fs IMG_Load createTexture d v))) =
                length (cerr v) +
                length (filter (\<lambda>p. Option.bind (IMG_Load p) createTexture = None)
                          (sort (scanEntries d entries [])))"
    if "status_of fs d = Found (Directory name entries) \<and> iteration_error fs d = None \<and>
        scanEntries d entries [] \<noteq> []" for name entries
  proof -
    from that have p: "status_of fs d = Found (Directory name entries)"
      "iteration_error fs d = None" "scanEntries d entries [] \<noteq> []"
      by simp_all
    from load_fresh[OF assms p, of IMG_Load createTexture] show ?thesis by (rule conjunct2)
  qed
  have ee: "\<forall>name entries.
            status_of fs d = Found (Directory name entries) \<and> iteration_error fs d = None \<and>
            scanEntries d entries [] \<noteq> [] \<longrightarrow>
              imagePaths (snd (loadImagesFromDirectory fs IMG_Load createTexture d v)) =
                sort (scanEntries d entries []) \<and>
              textures (snd (loadImagesFromDirectory fs IMG_Load createTexture d v)) =
                map (\<lambda>p. Option.bind (IMG_Load p) createTexture)
                  (sort (scanEntries d entries [])) \<and>
              length (cerr (snd (loadImagesFromDirectory fs IMG_Load createTexture d v))) =
                length (cerr v) +
                length (filter (\<lambda>p. Option.bind (IMG_Load p) createTexture = None)
                          (sort (scanEntries d entries [])))"
    by (intro allI impI) (rule e)
  show ?thesis
    by (rule conjI[OF a conjI[OF b conjI[OF c conjI[OF ee conjI[OF demo_load_two
          conjI[OF demo_load_none conjI[OF demo_load_thrown(1) demo_load_thrown(2)]]]]]]])
qed

theorem load_keeps_a_slot_per_source_witness:
  "imagePaths TimelapseViewer = [] \<and> textures TimelapseViewer = [] \<and>
   status_of demoFs ''shots'' = Found (Directory ''shots'' demoEntries) \<and>
   iteration_error demoFs ''shots'' = None \<and>
   scanEntries ''shots'' demoEntries [] \<noteq> [] \<and>
   fst (loadImagesFromDirectory demoFs failTwo createOk ''shots'' TimelapseViewer) =
     Returned True \<and>
   textures (snd (loadImagesFromDirectory demoFs failTwo createOk ''shots'' TimelapseViewer)) =
     map (\<lambda>p. Option.bind (failTwo p) createOk) (sort (scanEntries ''shots'' demoEntries [])) \<and>
   fst (loadImagesFromDirectory demoFs failTwo createOk ''elsewhere'' TimelapseViewer) =
     Returned False \<and>
   fst (loadImagesFromDirectory demoFs failTwo createOk ''locked'' TimelapseViewer) = Thrown"
proof -
  have f: "imagePaths TimelapseViewer = []" "textures TimelapseViewer = []"
    by (simp_all add: TimelapseViewer_def)
  note d = demo_status
  have s: "scanEntries ''shots'' demoEntries [] \<noteq> []" by (simp add: demo_scan)
  note t = load_keeps_a_slot_per_source[OF f, of demoFs failTwo createOk]
  from t[of "''shots''"] d(1,2) s
  have "fst (loadImagesFromDirectory demoFs failTwo createOk ''shots'' TimelapseViewer) =
          Returned True"
    "textures (snd (loadImagesFromDirectory demoFs failTwo createOk ''shots'' TimelapseViewer)) =
       map (\<lambda>p. Option.bind (failTwo p) createOk) (sort (scanEntries ''shots'' demoEntries []))"
    by blast+
  moreover from t[of "''elsewhere''"] d(5)
  have "fst (loadImagesFromDirectory demoFs failTwo createOk ''elsewhere'' TimelapseViewer) =
          Returned False"
    by blast
  moreover from t[of "''locked''"] d(3,4)
  have "fst (loadImagesFromDirectory demoFs failTwo createOk ''locked'' TimelapseViewer) = Thrown"
    by blast
  ultimately show ?thesis using f d(1,2) s by blast
qed

text \<open>
  C10. The scan appends, in the order of iteration, the path of every regular file that
  is an entry of the directory itself and whose extension, lower-cased, is one of the
  six image extensions. What a subdirectory contains is never looked at: the scan is
  the same with the subdirectory removed. The extension is the final one: for a name
  \<open>base.ext\<close> with a non-empty \<open>base\<close> and no period in \<open>ext\<close> it is \<open>.ext\<close> (the
  name \<^verbatim>\<open>..\<close> apart). In the example directory \<^verbatim>\<open>b.PNG\<close> is taken, while
  \<^verbatim>\<open>sub/z.png\<close>, \<^verbatim>\<open>x.png.bak\<close>, the hidden file \<^verbatim>\<open>.png\<close> and the special file
  \<^verbatim>\<open>pipe.png\<close> are not.
\<close>

theorem scan_direct_regular_files:
  "scanEntries d es ps =
     ps @ [entryPath d name. RegularFile name \<leftarrow> es,
                             isImageExtension (map tolower (extension name))] \<and>
   scanEntries d (es1 @ Directory n sub # es2) ps = scanEntries d (es1 @ es2) ps \<and>
   (base \<noteq> [] \<and> CHR ''.'' \<notin> set ext \<and> \<not> (base = ''.'' \<and> ext = []) \<longrightarrow>
      extension (base @ ''.'' @ ext) = ''.'' @ ext) \<and>
   scanEntries ''shots'' demoEntries [] =
     [''shots/b.PNG'', ''shots/a.jpg'', ''shots/e.tiff'', ''shots/c.jpeg'', ''shots/d.bmp'']"
proof -
  have a: "scanEntries d (es1 @ Directory n sub # es2) ps = scanEntries d (es1 @ es2) ps"
    by (simp add: scanEntries_eq)
  from scanEntries_eq[of d es ps] a extension_final[of base ext] demo_scan show ?thesis
    by blast
qed

theorem scan_direct_regular_files_witness:
  "''a.tar'' \<noteq> [] \<and> CHR ''.'' \<notin> set ''GZ'' \<and> \<not> (''a.tar'' = ''.'' \<and> ''GZ'' = []) \<and>
   extension ''a.tar.GZ'' = ''.GZ'' \<and>
   scanEntries ''d'' [RegularFile ''k.JPeG'', Directory ''sub'' [RegularFile ''z.png''],
                      RegularFile ''a.tar.GZ''] [] = [''d/k.JPeG'']"
proof -
  have h: "''a.tar'' \<noteq> [] \<and> CHR ''.'' \<notin> set ''GZ'' \<and> \<not> (''a.tar'' = ''.'' \<and> ''GZ'' = [])"
    by simp
  note t = scan_direct_regular_files[of "''d''"
      "[RegularFile ''k.JPeG'', Directory ''sub'' [RegularFile ''z.png''], RegularFile ''a.tar.GZ'']"
      "[]" "[RegularFile ''k.JPeG'']" "''sub''" "[RegularFile ''z.png'']"
      "[RegularFile ''a.tar.GZ'']" "''a.tar''" "''GZ''"]
  from t h have e: "extension (''a.tar'' @ ''.'' @ ''GZ'') = ''.'' @ ''GZ''" by blast
  then have e': "extension ''a.tar.GZ'' = ''.GZ''" by simp
  from t have "scanEntries ''d'' [RegularFile ''k.JPeG'', Directory ''sub'' [RegularFile ''z.png''],
                      RegularFile ''a.tar.GZ''] [] =
     [] @ [entryPath ''d'' name. RegularFile name \<leftarrow>
             [RegularFile ''k.JPeG'', Directory ''sub'' [RegularFile ''z.png''],
              RegularFile ''a.tar.GZ''],
           isImageExtension (map tolower (extension name))]"
    by blast
  then have "scanEntries ''d'' [RegularFile ''k.JPeG'', Directory ''sub'' [RegularFile ''z.png''],
                      RegularFile ''a.tar.GZ''] [] = [''d/k.JPeG'']"
    by (simp add: e' extension_def isImageExtension_def tolower_def entryPath_def)
  with h e' show ?thesis by simp
qed




text \<open>
  C8. A new viewer is paused at index 0, and a successful \<^verbatim>\<open>initialize\<close> does not move
  the index and leaves at least one path, so playback starts in \<open>[0, N)\<close>. From a well-formed viewer whose index is in
  \<open>[0, N)\<close>, every event, every queue of events and every iteration of the playing or
  paused loop returns without a fault a viewer with the same paths and an index in
  \<open>[0, N)\<close>. A step forward sets the index to \<open>(index + 1) mod N\<close>, a step backward
  to \<open>(index + N - 1) mod N\<close>.
\<close>

theorem index_in_range:
  assumes "frames_ok v" "display_ok v" "currentIndex v < length (imagePaths v)"
  shows "currentIndex TimelapseViewer = 0 \<and> \<not> playing TimelapseViewer \<and>
         currentIndex (snd (initialize lib fs IMG_Load createTexture d fm fps TimelapseViewer))
           = 0 \<and>
         (fst (initialize lib fs IMG_Load createTexture d fm fps TimelapseViewer) =
            Returned True \<longrightarrow>
            0 < length (imagePaths (snd (initialize lib fs IMG_Load createTexture d fm fps
                                           TimelapseViewer)))) \<and>
         (\<forall>e. \<exists>v'. handleEvent e v = Inr v' \<and> imagePaths v' = imagePaths v \<and>
                  currentIndex v' < length (imagePaths v')) \<and>
         (\<forall>evs. \<exists>v'. pollEvents evs v = Inr v' \<and> imagePaths v' = imagePaths v \<and>
                  currentIndex v' < length (imagePaths v')) \<and>
         (targetFPS v \<noteq> 0 \<and> 0 \<le> frameCount c \<and> frameCount c < 2 ^ 31 - 1 \<longrightarrow>
            (\<forall>t. \<exists>v' c'. update t (v, c) = Inr (v', c') \<and> imagePaths v' = imagePaths v \<and>
                     currentIndex v' < length (imagePaths v'))) \<and>
         (\<not> playing v \<longrightarrow>
            (\<exists>v'. handleEvent (SDL_KEYDOWN SDLK_RIGHT) v = Inr v' \<and>
                  currentIndex v' = (currentIndex v + 1) mod length (imagePaths v)) \<and>
            (\<exists>v'. handleEvent (SDL_KEYDOWN SDLK_LEFT) v = Inr v' \<and>
                  currentIndex v' =
                    (currentIndex v + length (imagePaths v) - 1) mod length (imagePaths v)))"
proof -
  have a: "currentIndex TimelapseViewer = 0" "\<not> playing TimelapseViewer"
    by (simp_all add: TimelapseViewer_def)
  have b: "currentIndex (snd (initialize lib fs IMG_Load createTexture d fm fps
                                TimelapseViewer)) = 0"
    using initialize_keeps[of lib fs IMG_Load createTexture d fm fps TimelapseViewer] a by simp
  have c: "0 < length (imagePaths (snd (initialize lib fs IMG_Load createTexture d fm fps
                                           TimelapseViewer)))"
    if "fst (initialize lib fs IMG_Load createTexture d fm fps TimelapseViewer) = Returned True"
    using initialize_nonempty[OF that] by simp
  have e: "\<exists>v'. handleEvent e v = Inr v' \<and> imagePaths v' = imagePaths v \<and>
                  currentIndex v' < length (imagePaths v')" for e
    using handleEvent_total[OF assms, of e] by blast
  have f: "\<exists>v'. pollEvents evs v = Inr v' \<and> imagePaths v' = imagePaths v \<and>
                  currentIndex v' < length (imagePaths v')" for evs
    using pollEvents_total[OF assms, of evs] by blast
  have g: "\<exists>v' c'. update t (v, c) = Inr (v', c') \<and> imagePaths v' = imagePaths v \<and>
                     currentIndex v' < length (imagePaths v')"
    if "targetFPS v \<noteq> 0 \<and> 0 \<le> frameCount c \<and> frameCount c < 2 ^ 31 - 1" for t
    using update_total[OF assms, of c t] that by blast
  have n1: "currentIndex v + length (imagePaths v) - 1 = currentIndex v + (length (imagePaths v) - 1)"
    using assms(3) by simp
  have h: "(\<exists>v'. handleEvent (SDL_KEYDOWN SDLK_RIGHT) v = Inr v' \<and>
                  currentIndex v' = (currentIndex v + 1) mod length (imagePaths v)) \<and>
            (\<exists>v'. handleEvent (SDL_KEYDOWN SDLK_LEFT) v = Inr v' \<and>
                  currentIndex v' =
                    (currentIndex v + length (imagePaths v) - 1) mod length (imagePaths v))"
    if np: "\<not> playing v"
  proof
    from step_forward[OF assms(1,2) np assms(3)] obtain p where
      "handleEvent (SDL_KEYDOWN SDLK_RIGHT) v =
         Inr (v\<lparr>currentIndex := (currentIndex v + 1) mod length (imagePaths v),
                presented := p\<rparr>)"
      by blast
    then show "\<exists>v'. handleEvent (SDL_KEYDOWN SDLK_RIGHT) v = Inr v' \<and>
                  currentIndex v' = (currentIndex v + 1) mod length (imagePaths v)"
      by (intro exI conjI) (assumption, simp)
  next
    from step_backward[OF assms(1,2) np assms(3)] obtain p where
      "handleEvent (SDL_KEYDOWN SDLK_LEFT) v =
         Inr (v\<lparr>currentIndex := (currentIndex v + (length (imagePaths v) - 1))
                                   mod length (imagePaths v),
                presented := p\<rparr>)"
      by blast
    then show "\<exists>v'. handleEvent (SDL_KEYDOWN SDLK_LEFT) v = Inr v' \<and>
                  currentIndex v' =
                    (currentIndex v + length (imagePaths v) - 1) mod length (imagePaths v)"
      unfolding n1 by (intro exI conjI) (assumption, simp)
  qed
  from a b c e f g h show ?thesis by blast
qed

theorem index_in_range_witness:
  "frames_ok demoViewer \<and> display_ok demoViewer \<and>
   currentIndex demoViewer < length (imagePaths demoViewer) \<and>
   (\<exists>v'. pollEvents [SDL_KEYDOWN SDLK_LEFT, SDL_KEYDOWN SDLK_SPACE, SDL_QUIT] demoViewer = Inr v'
         \<and> currentIndex v' < 3) \<and>
   (\<exists>v'. handleEvent (SDL_KEYDOWN SDLK_LEFT) demoViewer = Inr v' \<and> currentIndex v' = 2) \<and>
   (\<exists>v' c'. update 5000000 (playingViewer, \<lparr>lastFrameTime = 0, frameCount = 0, fpsTimer = 0\<rparr>)
               = Inr (v', c') \<and> currentIndex v' < 3)"
proof -
  let ?c = "\<lparr>lastFrameTime = 0, frameCount = 0, fpsTimer = 0\<rparr>"
  have d: "frames_ok demoViewer" "display_ok demoViewer"
    "currentIndex demoViewer < length (imagePaths demoViewer)" "\<not> playing demoViewer"
    using demoViewer_ok by simp_all
  have p: "frames_ok playingViewer" "display_ok playingViewer"
    "currentIndex playingViewer < length (imagePaths playingViewer)"
    using playingViewer_ok by simp_all
  have n: "length (imagePaths demoViewer) = 3" "currentIndex demoViewer = 0"
    "imagePaths playingViewer = imagePaths demoViewer"
    by (simp_all add: demo_eval)
  have q: "targetFPS playingViewer \<noteq> 0 \<and> 0 \<le> frameCount ?c \<and> frameCount ?c < 2 ^ 31 - 1"
    by (simp add: demo_eval)
  note t = index_in_range[OF d(1-3), where c = ?c]
  note u = index_in_range[OF p, where c = ?c]
  from t obtain v1 where
    "pollEvents [SDL_KEYDOWN SDLK_LEFT, SDL_KEYDOWN SDLK_SPACE, SDL_QUIT] demoViewer = Inr v1"
    "imagePaths v1 = imagePaths demoViewer" "currentIndex v1 < length (imagePaths v1)"
    by blast
  then have a: "\<exists>v'. pollEvents [SDL_KEYDOWN SDLK_LEFT, SDL_KEYDOWN SDLK_SPACE, SDL_QUIT]
                        demoViewer = Inr v' \<and> currentIndex v' < 3"
    using n(1) by auto
  from t d(4) obtain v2 where
    "handleEvent (SDL_KEYDOWN SDLK_LEFT) demoViewer = Inr v2"
    "currentIndex v2 = (currentIndex demoViewer + length (imagePaths demoViewer) - 1)
                        mod length (imagePaths demoViewer)"
    by blast
  then have b: "\<exists>v'. handleEvent (SDL_KEYDOWN SDLK_LEFT) demoViewer = Inr v' \<and> currentIndex v' = 2"
    unfolding n by auto
  from u q obtain v3 c3 where
    "update 5000000 (playingViewer, ?c) = Inr (v3, c3)"
    "imagePaths v3 = imagePaths playingViewer" "currentIndex v3 < length (imagePaths v3)"
    by blast
  then have c: "\<exists>v' c'. update 5000000 (playingViewer, ?c) = Inr (v', c') \<and> currentIndex v' < 3"
    using n by auto
  from a b c d show ?thesis by blast
qed

end
